theory Spec2Isabelle
  imports Main "HOL-Library.Word"
begin

section \<open>Machine types and platform constants\<close>

text \<open>
  The model is of the 64-bit build of \<^verbatim>\<open>src/search.c\<close>: \<^verbatim>\<open>ULONG_PTR\<close>, \<^verbatim>\<open>HANDLE\<close>
  and \<^verbatim>\<open>PVOID\<close> are 64-bit words, \<^verbatim>\<open>ULONG\<close>, \<^verbatim>\<open>DWORD\<close> and \<^verbatim>\<open>NTSTATUS\<close> are
  32-bit words, \<^verbatim>\<open>USHORT\<close> and \<^verbatim>\<open>WCHAR\<close> are 16-bit words. A null pointer and a
  null handle are the word 0.
\<close>

type_synonym NTSTATUS = "32 word"
type_synonym ULONG = "32 word"
type_synonym DWORD = "32 word"
type_synonym USHORT = "16 word"
type_synonym WCHAR = "16 word"
type_synonym ULONG_PTR = "64 word"
type_synonym HANDLE = "64 word"
type_synonym PVOID = "64 word"

named_theorems ntdefs \<open>the values of the platform constants\<close>

text \<open>
  The status codes, \<^verbatim>\<open>NT_SUCCESS\<close>, \<^verbatim>\<open>NtCurrentProcess()\<close> and \<^verbatim>\<open>FILE_TYPE_DISK\<close> come
  from the Windows headers, which the repository includes but does not carry. They are
  given their documented values; \<^verbatim>\<open>NT_SUCCESS(s)\<close> is \<^verbatim>\<open>((NTSTATUS)(s)) >= 0\<close> on the
  signed reading of the status.
\<close>

definition NT_SUCCESS :: "NTSTATUS \<Rightarrow> bool" where
  [ntdefs]: "NT_SUCCESS Status = (0 \<le> sint Status)"

definition STATUS_SUCCESS :: NTSTATUS where
  [ntdefs]: "STATUS_SUCCESS = 0"

definition STATUS_ALREADY_COMPLETE :: NTSTATUS where
  [ntdefs]: "STATUS_ALREADY_COMPLETE = 0x000000FF"

definition STATUS_BUFFER_OVERFLOW :: NTSTATUS where
  [ntdefs]: "STATUS_BUFFER_OVERFLOW = 0x80000005"

definition STATUS_UNSUCCESSFUL :: NTSTATUS where
  [ntdefs]: "STATUS_UNSUCCESSFUL = 0xC0000001"

definition STATUS_NOT_IMPLEMENTED :: NTSTATUS where
  [ntdefs]: "STATUS_NOT_IMPLEMENTED = 0xC0000002"

definition STATUS_INFO_LENGTH_MISMATCH :: NTSTATUS where
  [ntdefs]: "STATUS_INFO_LENGTH_MISMATCH = 0xC0000004"

definition STATUS_NO_MEMORY :: NTSTATUS where
  [ntdefs]: "STATUS_NO_MEMORY = 0xC0000017"

definition STATUS_ACCESS_DENIED :: NTSTATUS where
  [ntdefs]: "STATUS_ACCESS_DENIED = 0xC0000022"

definition STATUS_BUFFER_TOO_SMALL :: NTSTATUS where
  [ntdefs]: "STATUS_BUFFER_TOO_SMALL = 0xC0000023"

definition STATUS_INSUFFICIENT_RESOURCES :: NTSTATUS where
  [ntdefs]: "STATUS_INSUFFICIENT_RESOURCES = 0xC000009A"

definition NtCurrentProcess :: HANDLE where
  [ntdefs]: "NtCurrentProcess = - 1"

definition FILE_TYPE_DISK :: DWORD where
  [ntdefs]: "FILE_TYPE_DISK = 1"

section \<open>Data of the search\<close>

text \<open>
  One entry of the system handle table; only the two fields \<^verbatim>\<open>SearchProcess\<close> reads
  are kept.
\<close>

record SYSTEM_HANDLE_TABLE_ENTRY_INFO_EX =
  UniqueProcessId :: ULONG_PTR
  HandleValue :: ULONG_PTR

text \<open>
  The snapshot buffer as \<^verbatim>\<open>NtQuerySystemInformation\<close> leaves it. \<open>NumberOfHandles\<close> is
  the declared count. \<open>Handles\<close> is what the memory holds from the start of the array
  on, read as entries: the declared entries first, then whatever lies behind them, up
  to the end of the readable memory. A read at an index beyond this list is a read of
  unmapped memory and ends the run (\<open>Crashed\<close> below). The counter \<^verbatim>\<open>i\<close> and the count
  are natural numbers: \<^verbatim>\<open>i\<close> counts up from 0 in steps of one over a finite memory, so
  the 64-bit wrap-around is never reached.
\<close>

record SYSTEM_HANDLE_INFORMATION_EX =
  NumberOfHandles :: nat
  Handles :: "SYSTEM_HANDLE_TABLE_ENTRY_INFO_EX list"

text \<open>
  The counted wide string of the Windows headers, the type of the field
  \<^verbatim>\<open>buffer->Name\<close>. \<open>Buffer\<close> holds the characters the pointer of the same name points
  to, without a terminator.
\<close>

record UNICODE_STRING =
  Length :: USHORT
  MaximumLength :: USHORT
  Buffer :: "WCHAR list"

text \<open>The native entry points that are bound by name at first use.\<close>

datatype proc =
    P_RtlCreateHeap | P_RtlDestroyHeap | P_RtlAllocateHeap | P_RtlFreeHeap
  | P_NtQuerySystemInformation | P_NtQueryObject | P_NtDuplicateObject
  | P_NtOpenProcess | P_NtClose

text \<open>
  The lines the function sends to the log, by their format string:
  \<^item> \<open>Warn_enumerate\<close>: \<^verbatim>\<open>Warning: Could not enumerate process handles: %s\<close>;
  \<^item> \<open>Note_accessing\<close>: \<^verbatim>\<open>NOTE: The following process(es) are accessing %s:\<close> (the header);
  \<^item> \<open>Line_path\<close>: \<^verbatim>\<open>o %s\<close>;
  \<^item> \<open>Line_unknown\<close>: \<^verbatim>\<open>o Unknown (Process ID %d)\<close>;
  \<^item> \<open>Advice_close\<close>: \<^verbatim>\<open>You should try to close these applications ...\<close>;
  \<^item> \<open>Note_not_identified\<close>: \<^verbatim>\<open>NOTE: ... was not able to identify the process(es) ...\<close>.
  The three verbose lines (\<^verbatim>\<open>uuprintf\<close>) are \<open>dbg\<close>.
\<close>

datatype line =
    Warn_enumerate NTSTATUS
  | Note_accessing string
  | Line_path string
  | Line_unknown DWORD
  | Advice_close
  | Note_not_identified string

datatype dbg =
    Dbg_open_failed ULONG_PTR NTSTATUS
  | Dbg_realloc ULONG ULONG
  | Dbg_query_failed ULONG_PTR ULONG_PTR NTSTATUS

text \<open>
  Every call that leaves the function is recorded, in order, with its arguments and
  its reply. \<open>Ev_ReadHandleInfo i\<close> records the first read through
  \<^verbatim>\<open>handleInfo = &handles->Handles[i]\<close> of an iteration (line 422);
  \<open>Ev_PhOpenProcess i pid status handle\<close> the call of line 446 made for record \<open>i\<close>.
\<close>

datatype event =
    Ev_RtlCreateHeap PVOID
  | Ev_RtlDestroyHeap PVOID
  | Ev_RtlAllocateHeap ULONG PVOID
  | Ev_RtlFreeHeap PVOID
  | Ev_free
  | Ev_NtQuerySystemInformation PVOID ULONG NTSTATUS
  | Ev_ReadHandleInfo nat
  | Ev_NtClose HANDLE
  | Ev_PhOpenProcess nat ULONG_PTR NTSTATUS HANDLE
  | Ev_NtDuplicateObject HANDLE HANDLE NTSTATUS
  | Ev_GetFileType HANDLE
  | Ev_NtQueryObject HANDLE ULONG NTSTATUS ULONG
  | Ev_GetModuleFileNameExU HANDLE string
  | Ev_uprintf line
  | Ev_uuprintf dbg

text \<open>
  The operating system and the collaborators of the function, as the replies they give.
  A reply may depend on the record being processed (the first argument \<open>i\<close>) and, for
  calls made in an inner loop, on the number of the call.
  \<^item> \<open>available\<close>: whether an entry point could be bound (\<^verbatim>\<open>pfXxx != NULL\<close>).
  \<^item> \<open>RtlAllocateHeap w k size\<close>: the pointer returned by the \<open>k\<close>-th allocation, 0 on
    failure.
  \<^item> \<open>NtQuerySystemInformation w k size\<close>: the status of the \<open>k\<close>-th query and what it
    wrote to the buffer.
  \<^item> \<open>NtOpenProcess w i pid\<close>: the status and the handle written.
  \<^item> \<open>NtDuplicateObject w i process handle\<close>: the status and the handle written to
    \<^verbatim>\<open>dupHandle\<close> (\<open>None\<close>: nothing was written).
  \<^item> \<open>NtQueryObject w i attempts handle size\<close>: the status, the return size and what the
    call wrote to the buffer.
  \<^item> \<open>GetModuleFileNameExU w i process\<close>: the path written; the return value of the C
    function is its length, so the empty string is the failure.
  \<^item> \<open>utf8_to_wchar\<close>: the conversion of \<^verbatim>\<open>msapi_utf8.h\<close>.
  \<^item> \<open>uninit_pid\<close>, \<open>uninit_exe\<close>: what the stack holds in \<^verbatim>\<open>pid[1]\<close> and \<^verbatim>\<open>exe[1]\<close>,
    which the function does not initialise.
\<close>

record os =
  available :: "proc \<Rightarrow> bool"
  GetCurrentProcessId :: DWORD
  RtlCreateHeap :: PVOID
  RtlDestroyHeap :: "PVOID \<Rightarrow> PVOID"
  RtlAllocateHeap :: "nat \<Rightarrow> ULONG \<Rightarrow> PVOID"
  NtQuerySystemInformation :: "nat \<Rightarrow> ULONG \<Rightarrow> NTSTATUS \<times> SYSTEM_HANDLE_INFORMATION_EX"
  PH_LARGE_BUFFER_SIZE :: ULONG
  user_cancel :: "nat \<Rightarrow> bool"
  NtOpenProcess :: "nat \<Rightarrow> ULONG_PTR \<Rightarrow> NTSTATUS \<times> HANDLE"
  NtDuplicateObject :: "nat \<Rightarrow> HANDLE \<Rightarrow> HANDLE \<Rightarrow> NTSTATUS \<times> HANDLE option"
  GetFileType :: "nat \<Rightarrow> HANDLE \<Rightarrow> DWORD"
  NtQueryObject :: "nat \<Rightarrow> ULONG \<Rightarrow> HANDLE \<Rightarrow> ULONG \<Rightarrow> NTSTATUS \<times> ULONG \<times> UNICODE_STRING"
  GetModuleFileNameExU :: "nat \<Rightarrow> HANDLE \<Rightarrow> string"
  GetProcessId :: "HANDLE \<Rightarrow> DWORD"
  utf8_to_wchar :: "string \<Rightarrow> WCHAR list"
  uninit_pid :: ULONG_PTR
  uninit_exe :: string

text \<open>
  The state: the two globals of the file (\<^verbatim>\<open>PhHeapHandle\<close> and the static
  \<^verbatim>\<open>initialBufferSize\<close> of \<^verbatim>\<open>PhEnumHandlesEx\<close>), the locals of \<^verbatim>\<open>SearchProcess\<close>, the
  contents of the two buffers (\<open>handles_mem\<close> for \<^verbatim>\<open>*handles\<close>, \<open>buffer_mem\<close> for
  \<^verbatim>\<open>buffer->Name\<close>), the number of allocations made, and the record of calls.
\<close>

record state =
  PhHeapHandle :: PVOID
  initialBufferSize :: ULONG
  allocations :: nat
  trace :: "event list"
  status :: NTSTATUS
  handles :: PVOID
  handles_mem :: SYSTEM_HANDLE_INFORMATION_EX
  buffer :: PVOID
  buffer_mem :: UNICODE_STRING
  pid :: "nat \<Rightarrow> ULONG_PTR"
  cur_pid :: nat
  last_access_denied_pid :: ULONG_PTR
  bufferSize :: ULONG
  wHandleNameLen :: USHORT
  wHandleName :: "WCHAR list"
  dupHandle :: HANDLE
  processHandle :: HANDLE
  bFound :: bool
  exe :: "nat \<Rightarrow> string"
  cur_exe :: nat

definition emit :: "event \<Rightarrow> state \<Rightarrow> state" where
  "emit e s = s\<lparr>trace := trace s @ [e]\<rparr>"

section \<open>Helpers of the C library and of the headers\<close>

text \<open>
  \<^verbatim>\<open>wcslen\<close> and \<^verbatim>\<open>wcsncmp\<close> on wide strings given as the characters in memory; the
  end of the list reads as the terminator. \<^verbatim>\<open>wcsncmp\<close> compares at most \<open>n\<close> characters
  and stops at a terminator; its sign is the order of the first differing pair.
\<close>

definition wcslen :: "WCHAR list \<Rightarrow> nat" where
  "wcslen s = length (takeWhile (\<lambda>c. c \<noteq> 0) s)"

fun wcsncmp :: "WCHAR list \<Rightarrow> WCHAR list \<Rightarrow> nat \<Rightarrow> int" where
  "wcsncmp s t 0 = 0"
| "wcsncmp s t (Suc n) =
     (let a = (case s of [] \<Rightarrow> 0 | c # _ \<Rightarrow> c);
          b = (case t of [] \<Rightarrow> 0 | c # _ \<Rightarrow> c)
      in if a \<noteq> b then (if a < b then - 1 else 1)
         else if a = 0 then 0
         else wcsncmp (tl s) (tl t) n)"

text \<open>
  Modelled from the spec: the macro \<^verbatim>\<open>PF_INIT_OR_SET_STATUS\<close> of \<^verbatim>\<open>rufus.h\<close>, which is
  not among the sources. It binds the entry point and, when that fails and the status
  is still a success, sets the status to the capability failure (section 4.1: a missing
  capability fails the operation rather than being dereferenced).
\<close>

definition PF_INIT_OR_SET_STATUS :: "os \<Rightarrow> proc \<Rightarrow> NTSTATUS \<Rightarrow> NTSTATUS" where
  "PF_INIT_OR_SET_STATUS w p st =
     (if \<not> available w p \<and> NT_SUCCESS st then STATUS_NOT_IMPLEMENTED else st)"

text \<open>
  Modelled from the spec: the macro \<^verbatim>\<open>CHECK_FOR_USER_CANCEL\<close> of \<^verbatim>\<open>rufus.h\<close>, which is
  not among the sources. It is polled once per candidate and, when triggered, leaves
  the loop for the cleanup (section 4.5); \<open>user_cancel w i\<close> says whether the
  cancellation is seen at the poll of iteration \<open>i\<close>.
\<close>

definition CHECK_FOR_USER_CANCEL :: "os \<Rightarrow> nat \<Rightarrow> bool" where
  "CHECK_FOR_USER_CANCEL w i = user_cancel w i"

section \<open>The private heap (lines 109-176)\<close>

definition PhCreateHeap :: "os \<Rightarrow> state \<Rightarrow> NTSTATUS \<times> state" where
  "PhCreateHeap w s =
     (if PhHeapHandle s \<noteq> 0 then (STATUS_ALREADY_COMPLETE, s)
      else let st = PF_INIT_OR_SET_STATUS w P_RtlCreateHeap STATUS_SUCCESS
           in if NT_SUCCESS st then
                let s1 = (emit (Ev_RtlCreateHeap (RtlCreateHeap w)) s)
                           \<lparr>PhHeapHandle := RtlCreateHeap w\<rparr>
                in (if PhHeapHandle s1 = 0 then STATUS_UNSUCCESSFUL else st, s1)
              else (st, s))"

definition PhDestroyHeap :: "os \<Rightarrow> state \<Rightarrow> NTSTATUS \<times> state" where
  "PhDestroyHeap w s =
     (if PhHeapHandle s = 0 then (STATUS_ALREADY_COMPLETE, s)
      else let st = PF_INIT_OR_SET_STATUS w P_RtlDestroyHeap STATUS_SUCCESS
           in if NT_SUCCESS st then
                let s1 = emit (Ev_RtlDestroyHeap (PhHeapHandle s)) s
                in if RtlDestroyHeap w (PhHeapHandle s) = 0
                   then (st, s1\<lparr>PhHeapHandle := 0\<rparr>)
                   else (STATUS_UNSUCCESSFUL, s1)
              else (st, s))"

definition PhAllocate :: "os \<Rightarrow> ULONG \<Rightarrow> state \<Rightarrow> PVOID \<times> state" where
  "PhAllocate w Size s =
     (if \<not> available w P_RtlAllocateHeap then (0, s)
      else let p = RtlAllocateHeap w (allocations s) Size
           in (p, (emit (Ev_RtlAllocateHeap Size p) s)\<lparr>allocations := Suc (allocations s)\<rparr>))"

definition PhFree :: "os \<Rightarrow> PVOID \<Rightarrow> state \<Rightarrow> state" where
  "PhFree w Memory s =
     (if available w P_RtlFreeHeap then emit (Ev_RtlFreeHeap Memory) s else s)"

section \<open>PhEnumHandlesEx (lines 186-226)\<close>

text \<open>
  The \<^verbatim>\<open>while\<close> loop of lines 202-214, entered with the number \<open>k\<close> of the next query,
  the buffer and its size. The loop has no bound of its own but the ceiling, and the
  32-bit \<^verbatim>\<open>bufferSize *= 2\<close> wraps around, so the function is partial: \<open>None\<close> is a run
  that never leaves the loop.
\<close>

partial_function (option) PhEnumHandlesEx_loop ::
  "os \<Rightarrow> nat \<Rightarrow> PVOID \<Rightarrow> ULONG \<Rightarrow> state \<Rightarrow> (NTSTATUS \<times> state) option" where
  "PhEnumHandlesEx_loop w k buf sz s =
     (case NtQuerySystemInformation w k sz of (st, mem) \<Rightarrow>
        let s1 = emit (Ev_NtQuerySystemInformation buf sz st) s in
        if st = STATUS_INFO_LENGTH_MISMATCH then
          let s2 = PhFree w buf s1 in
          if sz * 2 > PH_LARGE_BUFFER_SIZE w then Some (STATUS_INSUFFICIENT_RESOURCES, s2)
          else case PhAllocate w (sz * 2) s2 of (buf', s3) \<Rightarrow>
            if buf' = 0 then Some (STATUS_NO_MEMORY, s3)
            else PhEnumHandlesEx_loop w (Suc k) buf' (sz * 2) s3
        else if \<not> NT_SUCCESS st then Some (st, PhFree w buf s1)
        else Some (st, (if sz \<le> 0x200000 then s1\<lparr>initialBufferSize := sz\<rparr> else s1)
                         \<lparr>handles := buf, handles_mem := mem\<rparr>))"

declare PhEnumHandlesEx_loop.simps [code]

definition PhEnumHandlesEx :: "os \<Rightarrow> state \<Rightarrow> (NTSTATUS \<times> state) option" where
  "PhEnumHandlesEx w s =
     (let st = PF_INIT_OR_SET_STATUS w P_NtQuerySystemInformation STATUS_SUCCESS
      in if \<not> NT_SUCCESS st then Some (st, s)
         else case PhAllocate w (initialBufferSize s) s of (buf, s1) \<Rightarrow>
           if buf = 0 then Some (STATUS_NO_MEMORY, s1)
           else PhEnumHandlesEx_loop w 0 buf (initialBufferSize s) s1)"

section \<open>PhOpenProcess (lines 237-259)\<close>

text \<open>
  The result is the status and the value of \<^verbatim>\<open>*ProcessHandle\<close> after the call; \<open>old\<close> is
  its value before, kept when the entry point is missing.
\<close>

definition PhOpenProcess :: "os \<Rightarrow> nat \<Rightarrow> ULONG_PTR \<Rightarrow> HANDLE \<Rightarrow> NTSTATUS \<times> HANDLE" where
  "PhOpenProcess w i ProcessId old =
     (if ProcessId = ucast (GetCurrentProcessId w) then (0, NtCurrentProcess)
      else let st = PF_INIT_OR_SET_STATUS w P_NtOpenProcess STATUS_SUCCESS
           in if \<not> NT_SUCCESS st then (st, old)
              else NtOpenProcess w i ProcessId)"

section \<open>The loop of SearchProcess (lines 406-523)\<close>

text \<open>
  One iteration is a chain of stages in the order of the source. A stage ends in
  \<open>Next\<close> (control falls through to the following statement), \<open>Continue\<close> (a
  \<^verbatim>\<open>continue\<close>), \<open>Break\<close> (the \<^verbatim>\<open>break\<close> of line 442 or the \<^verbatim>\<open>goto out\<close> of the
  cancellation check; both arrive at the label \<^verbatim>\<open>out\<close>) or \<open>Fault\<close> (an invalid memory
  access).
\<close>

datatype flow =
    is_Next: Next (state_of: state)
  | is_Continue: Continue (state_of: state)
  | is_Break: Break (state_of: state)
  | is_Fault: Fault (state_of: state)

definition andthen :: "flow \<Rightarrow> (state \<Rightarrow> flow) \<Rightarrow> flow" where
  "andthen f g =
     (case f of Next s \<Rightarrow> g s | Continue s \<Rightarrow> Continue s | Break s \<Rightarrow> Break s
      | Fault s \<Rightarrow> Fault s)"

text \<open>Lines 410-413: close the handle duplicated for the previous record.\<close>

definition st_close_dup :: "state \<Rightarrow> flow" where
  "st_close_dup s =
     Next (if dupHandle s \<noteq> 0 \<and> processHandle s \<noteq> NtCurrentProcess
           then (emit (Ev_NtClose (dupHandle s)) s)\<lparr>dupHandle := 0\<rparr>
           else s)"

text \<open>
  Lines 422-432: read the process id of record \<open>i\<close>, store it in the current slot and,
  when the two slots differ, rotate and close the process handle. This is the first
  read through \<^verbatim>\<open>handleInfo\<close>; it comes before the exit test of line 441.
\<close>

definition st_track_pid :: "SYSTEM_HANDLE_INFORMATION_EX \<Rightarrow> nat \<Rightarrow> state \<Rightarrow> flow" where
  "st_track_pid snap i s =
     (if length (Handles snap) \<le> i then Fault s
      else let s1 = (emit (Ev_ReadHandleInfo i) s)
                      \<lparr>pid := (pid s)(cur_pid s := UniqueProcessId (Handles snap ! i))\<rparr>
           in if pid s1 0 \<noteq> pid s1 1 then
                let s2 = s1\<lparr>cur_pid := (cur_pid s1 + 1) mod 2\<rparr>
                in if processHandle s2 \<noteq> 0 then
                     Next ((if processHandle s2 \<noteq> NtCurrentProcess
                            then emit (Ev_NtClose (processHandle s2)) s2 else s2)
                           \<lparr>processHandle := 0\<rparr>)
                   else Next s2
              else Next s1)"

text \<open>Line 434.\<close>

definition st_cancel :: "os \<Rightarrow> nat \<Rightarrow> state \<Rightarrow> flow" where
  "st_cancel w i s = (if CHECK_FOR_USER_CANCEL w i then Break s else Next s)"

text \<open>Lines 436-438.\<close>

definition st_denied :: "SYSTEM_HANDLE_INFORMATION_EX \<Rightarrow> nat \<Rightarrow> state \<Rightarrow> flow" where
  "st_denied snap i s =
     (if UniqueProcessId (Handles snap ! i) = last_access_denied_pid s
      then Continue s else Next s)"

text \<open>Lines 440-442.\<close>

definition st_exit :: "SYSTEM_HANDLE_INFORMATION_EX \<Rightarrow> nat \<Rightarrow> state \<Rightarrow> flow" where
  "st_exit snap i s = (if NumberOfHandles snap \<le> i then Break s else Next s)"

text \<open>Lines 444-458.\<close>

definition st_open :: "os \<Rightarrow> SYSTEM_HANDLE_INFORMATION_EX \<Rightarrow> nat \<Rightarrow> state \<Rightarrow> flow" where
  "st_open w snap i s =
     (if pid s 0 \<noteq> pid s 1 then
        (case PhOpenProcess w i (UniqueProcessId (Handles snap ! i)) (processHandle s) of
           (st, h) \<Rightarrow>
             let s1 = (emit (Ev_PhOpenProcess i (UniqueProcessId (Handles snap ! i)) st h) s)
                        \<lparr>status := st, processHandle := h\<rparr>
             in if \<not> NT_SUCCESS st then
                  let s2 = (emit (Ev_uuprintf
                              (Dbg_open_failed (UniqueProcessId (Handles snap ! i)) st)) s1)
                             \<lparr>processHandle := 0\<rparr>
                  in if st = STATUS_ACCESS_DENIED
                     then Continue
                            (s2\<lparr>last_access_denied_pid := UniqueProcessId (Handles snap ! i)\<rparr>)
                     else Continue s2
                else Next s1)
      else Next s)"

text \<open>Lines 460-470.\<close>

definition st_dup :: "os \<Rightarrow> bool \<Rightarrow> SYSTEM_HANDLE_INFORMATION_EX \<Rightarrow> nat \<Rightarrow> state \<Rightarrow> flow" where
  "st_dup w bIgnoreSelf snap i s =
     (if processHandle s = NtCurrentProcess then
        (if bIgnoreSelf then Continue s
         else Next (s\<lparr>dupHandle := HandleValue (Handles snap ! i)\<rparr>))
      else
        (case NtDuplicateObject w i (processHandle s) (HandleValue (Handles snap ! i)) of
           (st, written) \<Rightarrow>
             let s1 = (emit (Ev_NtDuplicateObject (processHandle s)
                               (HandleValue (Handles snap ! i)) st) s)
                        \<lparr>status := st,
                         dupHandle := (case written of None \<Rightarrow> dupHandle s | Some h \<Rightarrow> h)\<rparr>
             in if \<not> NT_SUCCESS st then Continue s1 else Next s1))"

text \<open>Lines 472-474.\<close>

definition st_filetype :: "os \<Rightarrow> nat \<Rightarrow> state \<Rightarrow> flow" where
  "st_filetype w i s =
     (let s1 = emit (Ev_GetFileType (dupHandle s)) s
      in if GetFileType w i (dupHandle s) \<noteq> FILE_TYPE_DISK then Continue s1 else Next s1)"

text \<open>
  Lines 477-489, the \<^verbatim>\<open>do ... while (--attempts)\<close> loop, entered with the value of
  \<^verbatim>\<open>attempts\<close>. The allocation of line 485 is not checked in the source.
\<close>

definition size_error :: "NTSTATUS \<Rightarrow> bool" where
  "size_error st = (st = STATUS_BUFFER_OVERFLOW \<or> st = STATUS_INFO_LENGTH_MISMATCH \<or>
                    st = STATUS_BUFFER_TOO_SMALL)"

lemma attempts_decrease: "(a :: ULONG) \<noteq> 1 \<Longrightarrow> unat (a - 2) < unat (a - 1)"
proof -
  assume "a \<noteq> 1"
  then have nz: "a - 1 \<noteq> 0" by simp
  have "unat (a - 1 - 1) = unat (a - 1) - 1"
    using nz by (rule unat_minus_one)
  moreover have "0 < unat (a - 1)"
    using nz by (simp add: unat_gt_0)
  ultimately show ?thesis by simp
qed

function query_loop :: "os \<Rightarrow> nat \<Rightarrow> ULONG \<Rightarrow> state \<Rightarrow> state" where
  "query_loop w i attempts s =
     (case NtQueryObject w i attempts (dupHandle s) (bufferSize s) of
        (st, returnSize, mem) \<Rightarrow>
          let s1 = (emit (Ev_NtQueryObject (dupHandle s) (bufferSize s) st returnSize) s)
                     \<lparr>status := st, buffer_mem := mem\<rparr>
          in if size_error st then
               let s2 = (emit (Ev_uuprintf (Dbg_realloc (bufferSize s1) returnSize)) s1)
                          \<lparr>bufferSize := returnSize\<rparr>;
                   s3 = PhFree w (buffer s2) s2
               in (case PhAllocate w (bufferSize s3) s3 of
                     (p, s4) \<Rightarrow>
                       if attempts - 1 \<noteq> 0
                       then query_loop w i (attempts - 1) (s4\<lparr>buffer := p\<rparr>)
                       else s4\<lparr>buffer := p\<rparr>)
             else s1)"
  by pat_completeness auto
termination
  by (relation "measure (\<lambda>(w, i, attempts, s). unat (attempts - 1))")
     (auto simp: attempts_decrease)

declare query_loop.simps [simp del]

text \<open>Lines 476-494.\<close>

definition st_query :: "os \<Rightarrow> SYSTEM_HANDLE_INFORMATION_EX \<Rightarrow> nat \<Rightarrow> state \<Rightarrow> flow" where
  "st_query w snap i s =
     (let s1 = query_loop w i 8 s
      in if \<not> NT_SUCCESS (status s1)
         then Continue (emit (Ev_uuprintf (Dbg_query_failed (HandleValue (Handles snap ! i))
                                (UniqueProcessId (Handles snap ! i)) (status s1))) s1)
         else Next s1)"

text \<open>
  Lines 496-506. Both length tests read \<^verbatim>\<open>buffer->Name.Length\<close>; with a null \<^verbatim>\<open>buffer\<close>
  (the unchecked allocation of line 485) the read is invalid.
\<close>

definition st_match :: "bool \<Rightarrow> state \<Rightarrow> flow" where
  "st_match bPartialMatch s =
     (if buffer s = 0 then Fault s
      else if \<not> bPartialMatch \<and> wHandleNameLen s \<noteq> Length (buffer_mem s) then Continue s
      else if bPartialMatch \<and> wHandleNameLen s > Length (buffer_mem s) then Continue s
      else if wcsncmp (wHandleName s) (Buffer (buffer_mem s)) (unat (wHandleNameLen s)) \<noteq> 0
           then Continue s
      else Next s)"

text \<open>Lines 508-522.\<close>

definition st_report :: "os \<Rightarrow> string \<Rightarrow> nat \<Rightarrow> state \<Rightarrow> flow" where
  "st_report w HandleName i s =
     (let s1 = (if \<not> bFound s
                then (emit (Ev_uprintf (Note_accessing HandleName)) s)\<lparr>bFound := True\<rparr>
                else s);
          path = GetModuleFileNameExU w i (processHandle s1);
          s2 = emit (Ev_GetModuleFileNameExU (processHandle s1) path) s1
      in if path \<noteq> [] then
           let s3 = s2\<lparr>exe := (exe s2)(cur_exe s2 := path)\<rparr>
           in if exe s3 0 \<noteq> exe s3 1
              then Next ((emit (Ev_uprintf (Line_path (exe s3 (cur_exe s3)))) s3)
                         \<lparr>cur_exe := (cur_exe s3 + 1) mod 2\<rparr>)
              else Next s3
         else Next (emit (Ev_uprintf (Line_unknown (GetProcessId w (processHandle s2)))) s2))"

text \<open>The body of the \<^verbatim>\<open>for\<close> loop, lines 407-522.\<close>

definition loop_body ::
  "os \<Rightarrow> string \<Rightarrow> bool \<Rightarrow> bool \<Rightarrow> SYSTEM_HANDLE_INFORMATION_EX \<Rightarrow> nat \<Rightarrow> state \<Rightarrow> flow" where
  "loop_body w HandleName bPartialMatch bIgnoreSelf snap i s =
     andthen (st_close_dup s) (\<lambda>s.
     andthen (st_track_pid snap i s) (\<lambda>s.
     andthen (st_cancel w i s) (\<lambda>s.
     andthen (st_denied snap i s) (\<lambda>s.
     andthen (st_exit snap i s) (\<lambda>s.
     andthen (st_open w snap i s) (\<lambda>s.
     andthen (st_dup w bIgnoreSelf snap i s) (\<lambda>s.
     andthen (st_filetype w i s) (\<lambda>s.
     andthen (st_query w snap i s) (\<lambda>s.
     andthen (st_match bPartialMatch s) (\<lambda>s.
     st_report w HandleName i s))))))))))"

text \<open>
  How the loop ends: at the label \<^verbatim>\<open>out\<close> (\<open>Finished\<close>), or in an invalid memory access
  (\<open>Crashed\<close>).
\<close>

datatype ending = Finished (ending_state: state) | Crashed (ending_state: state)

lemma loop_body_in_memory:
  assumes "loop_body w n pm ig snap i s = Next s' \<or> loop_body w n pm ig snap i s = Continue s'"
  shows "i < length (Handles snap)"
proof (rule ccontr)
  assume "\<not> i < length (Handles snap)"
  then have "st_track_pid snap i t = Fault t" for t
    by (simp add: st_track_pid_def)
  then have "loop_body w n pm ig snap i s =
    Fault (if dupHandle s \<noteq> 0 \<and> processHandle s \<noteq> NtCurrentProcess
           then (emit (Ev_NtClose (dupHandle s)) s)\<lparr>dupHandle := 0\<rparr> else s)"
    by (simp add: loop_body_def andthen_def st_close_dup_def)
  with assms show False by simp
qed

text \<open>
  The \<^verbatim>\<open>for (i = 0; ; i++)\<close> loop. It is total: an iteration that does not leave the
  loop has read record \<open>i\<close> inside the memory, and \<open>i\<close> grows.
\<close>

function search_loop ::
  "os \<Rightarrow> string \<Rightarrow> bool \<Rightarrow> bool \<Rightarrow> SYSTEM_HANDLE_INFORMATION_EX \<Rightarrow> nat \<Rightarrow> state \<Rightarrow> ending" where
  "search_loop w HandleName bPartialMatch bIgnoreSelf snap i s =
     (case loop_body w HandleName bPartialMatch bIgnoreSelf snap i s of
        Next s' \<Rightarrow> search_loop w HandleName bPartialMatch bIgnoreSelf snap (Suc i) s'
      | Continue s' \<Rightarrow> search_loop w HandleName bPartialMatch bIgnoreSelf snap (Suc i) s'
      | Break s' \<Rightarrow> Finished s'
      | Fault s' \<Rightarrow> Crashed s')"
  by pat_completeness auto
termination
proof (relation "measure (\<lambda>(w, n, pm, ig, snap, i, s). length (Handles snap) - i)")
  show "wf (measure (\<lambda>(w, n, pm, ig, snap, i, s). length (Handles snap) - i))"
    by simp
next
  fix w n pm ig snap i s s'
  assume "loop_body w n pm ig snap i s = Next s'"
  then have "i < length (Handles snap)"
    using loop_body_in_memory by blast
  then show "((w, n, pm, ig, snap, Suc i, s'), (w, n, pm, ig, snap, i, s))
        \<in> measure (\<lambda>(w, n, pm, ig, snap, i, s). length (Handles snap) - i)"
    by simp
next
  fix w n pm ig snap i s s'
  assume "loop_body w n pm ig snap i s = Continue s'"
  then have "i < length (Handles snap)"
    using loop_body_in_memory by blast
  then show "((w, n, pm, ig, snap, Suc i, s'), (w, n, pm, ig, snap, i, s))
        \<in> measure (\<lambda>(w, n, pm, ig, snap, i, s). length (Handles snap) - i)"
    by simp
qed

declare search_loop.simps [simp del]

section \<open>SearchProcess (lines 346-536)\<close>

text \<open>The cleanup from the label \<^verbatim>\<open>out\<close> on, lines 525-535, and the value returned.\<close>

definition out :: "os \<Rightarrow> string \<Rightarrow> state \<Rightarrow> bool \<times> state" where
  "out w HandleName s =
     (let s1 = emit (Ev_uprintf (if bFound s then Advice_close
                                 else Note_not_identified HandleName)) s;
          s2 = emit Ev_free s1;
          s3 = PhFree w (buffer s2) s2;
          s4 = PhFree w (handles s3) s3;
          s5 = snd (PhDestroyHeap w s4)
      in (bFound s5, s5))"

text \<open>
  What a call returns: the \<^verbatim>\<open>BOOL\<close> and the state it leaves (\<open>Returned\<close>), or the state
  at an invalid memory access (\<open>Aborted\<close>). The outer \<open>option\<close> is \<open>None\<close> for a call
  that never returns.
\<close>

datatype result = Returned bool state | Aborted state

text \<open>
  The declarations of lines 348-365 with their initialisers; \<open>g\<close> carries the globals
  and the record of calls made so far.
\<close>

definition locals :: "os \<Rightarrow> state \<Rightarrow> state" where
  "locals w g =
     g\<lparr>status := STATUS_SUCCESS, handles := 0, buffer := 0,
       pid := (\<lambda>_. uninit_pid w), last_access_denied_pid := 0,
       wHandleName := [], dupHandle := 0, processHandle := 0, bFound := False,
       exe := (\<lambda>_. uninit_exe w)\<rparr>"

definition SearchProcess :: "os \<Rightarrow> string \<Rightarrow> bool \<Rightarrow> bool \<Rightarrow> state \<Rightarrow> result option" where
  "SearchProcess w HandleName bPartialMatch bIgnoreSelf g =
     (let s0 = locals w g;
          st1 = PF_INIT_OR_SET_STATUS w P_NtQueryObject (status s0);
          st2 = PF_INIT_OR_SET_STATUS w P_NtDuplicateObject st1;
          st3 = PF_INIT_OR_SET_STATUS w P_NtClose st2
      in case (if NT_SUCCESS st3 then PhCreateHeap w s0 else (st3, s0)) of (st4, s1) \<Rightarrow>
        (case (if NT_SUCCESS st4 then PhEnumHandlesEx w s1 else Some (st4, s1)) of
           None \<Rightarrow> None
         | Some (st5, s2) \<Rightarrow>
             if \<not> NT_SUCCESS st5 then
               (case out w HandleName
                       (emit (Ev_uprintf (Warn_enumerate st5)) (s2\<lparr>status := st5\<rparr>)) of
                  (b, s') \<Rightarrow> Some (Returned b s'))
             else
               let s3 = s2\<lparr>status := st5, pid := (pid s2)(0 := 0), cur_pid := 1,
                           exe := (exe s2)(0 := []), cur_exe := 1,
                           wHandleName := utf8_to_wchar w HandleName,
                           wHandleNameLen := of_nat (wcslen (utf8_to_wchar w HandleName)),
                           bufferSize := 0x200\<rparr>
               in case PhAllocate w (bufferSize s3) s3 of (p, s4) \<Rightarrow>
                   (if p = 0 then
                      (case out w HandleName (s4\<lparr>buffer := p\<rparr>) of
                         (b, s') \<Rightarrow> Some (Returned b s'))
                    else
                      (case search_loop w HandleName bPartialMatch bIgnoreSelf
                              (handles_mem s4) 0 (s4\<lparr>buffer := p\<rparr>) of
                         Finished s5 \<Rightarrow>
                           (case out w HandleName s5 of (b, s') \<Rightarrow> Some (Returned b s'))
                       | Crashed s5 \<Rightarrow> Some (Aborted s5)))))"

section \<open>Concrete runs\<close>

text \<open>
  A process that has not called the function before: no heap, the initial value of the
  static \<^verbatim>\<open>initialBufferSize\<close>, an empty record of calls. The locals are overwritten by
  \<open>locals\<close>.
\<close>

definition boot :: state where
  "boot = \<lparr>PhHeapHandle = 0, initialBufferSize = 0x10000, allocations = 0, trace = [],
     status = 0, handles = 0, handles_mem = \<lparr>NumberOfHandles = 0, Handles = []\<rparr>,
     buffer = 0, buffer_mem = \<lparr>Length = 0, MaximumLength = 0, Buffer = []\<rparr>,
     pid = (\<lambda>_. 0), cur_pid = 0, last_access_denied_pid = 0, bufferSize = 0,
     wHandleNameLen = 0, wHandleName = [], dupHandle = 0, processHandle = 0,
     bFound = False, exe = (\<lambda>_. []), cur_exe = 0\<rparr>"

text \<open>The conversion of an ASCII string to wide characters.\<close>

definition widen :: "string \<Rightarrow> WCHAR list" where
  "widen cs = map (\<lambda>c. of_nat (of_char c)) cs"

text \<open>
  The \<^verbatim>\<open>UNICODE_STRING\<close> the system returns for a name: by the definition of the type
  in the Windows headers, \<^verbatim>\<open>Length\<close> is the length of the string in bytes, not
  counting a terminator, and \<^verbatim>\<open>MaximumLength\<close> the size of the buffer in bytes; a wide
  character is two bytes.
\<close>

definition unicode_string_of :: "WCHAR list \<Rightarrow> UNICODE_STRING" where
  "unicode_string_of cs =
     \<lparr>Length = 2 * of_nat (length cs), MaximumLength = 2 * of_nat (length cs) + 2,
      Buffer = cs\<rparr>"

text \<open>The name \<^verbatim>\<open>\Device\HarddiskVolume3\file.txt\<close>; \<open>CHR 0x5C\<close> is the backslash.\<close>

definition volume_file :: string where
  "volume_file =
     CHR 0x5C # ''Device'' @ CHR 0x5C # ''HarddiskVolume3'' @ CHR 0x5C # ''file.txt''"

definition entry :: "ULONG_PTR \<Rightarrow> ULONG_PTR \<Rightarrow> SYSTEM_HANDLE_TABLE_ENTRY_INFO_EX" where
  "entry p h = \<lparr>UniqueProcessId = p, HandleValue = h\<rparr>"

text \<open>
  A cooperative system: the caller is process 4242, every entry point is bound, every
  call succeeds. The snapshot declares \<open>n\<close> handles and its memory holds \<open>mem\<close>. Every
  process opens as handle \<open>0x100\<close>, every handle duplicates as \<open>0x200\<close>, is a disk
  file and is named \<^verbatim>\<open>\Device\HarddiskVolume3\file.txt\<close>; every process runs
  \<^verbatim>\<open>app.exe\<close>. The ceiling is Process Hacker's 256 MiB.
\<close>

definition os0 :: "nat \<Rightarrow> SYSTEM_HANDLE_TABLE_ENTRY_INFO_EX list \<Rightarrow> os" where
  "os0 n mem =
     \<lparr>available = (\<lambda>_. True), GetCurrentProcessId = 4242, RtlCreateHeap = 0x10000000,
      RtlDestroyHeap = (\<lambda>_. 0),
      RtlAllocateHeap = (\<lambda>k sz. 0x20000000 + 0x100000 * of_nat k),
      NtQuerySystemInformation =
        (\<lambda>k sz. (STATUS_SUCCESS, \<lparr>NumberOfHandles = n, Handles = mem\<rparr>)),
      PH_LARGE_BUFFER_SIZE = 0x10000000, user_cancel = (\<lambda>_. False),
      NtOpenProcess = (\<lambda>i p. (STATUS_SUCCESS, 0x100)),
      NtDuplicateObject = (\<lambda>i ph h. (STATUS_SUCCESS, Some 0x200)),
      GetFileType = (\<lambda>i h. FILE_TYPE_DISK),
      NtQueryObject =
        (\<lambda>i a h sz. (STATUS_SUCCESS, 0x50, unicode_string_of (widen volume_file))),
      GetModuleFileNameExU = (\<lambda>i h. ''app.exe''), GetProcessId = (\<lambda>h. 1000),
      utf8_to_wchar = widen, uninit_pid = 0x5555, uninit_exe = ''junk''\<rparr>"

text \<open>What a call shows: the value returned (\<open>None\<close> for a crash) and the calls made.\<close>

definition observe :: "result option \<Rightarrow> (bool option \<times> event list) option" where
  "observe r =
     map_option (\<lambda>r. case r of Returned b s \<Rightarrow> (Some b, trace s)
                        | Aborted s \<Rightarrow> (None, trace s)) r"

text \<open>The calls every run on \<open>os0\<close> from \<open>boot\<close> starts and ends with.\<close>

definition setup_calls :: "event list" where
  "setup_calls =
     [Ev_RtlCreateHeap 0x10000000, Ev_RtlAllocateHeap 0x10000 0x20000000,
      Ev_NtQuerySystemInformation 0x20000000 0x10000 STATUS_SUCCESS,
      Ev_RtlAllocateHeap 0x200 0x20100000]"

definition cleanup_calls :: "event list" where
  "cleanup_calls =
     [Ev_free, Ev_RtlFreeHeap 0x20100000, Ev_RtlFreeHeap 0x20000000,
      Ev_RtlDestroyHeap 0x10000000]"

text \<open>
  The run of C2: two handles of process 1000, neither a disk file; the user cancels
  while the second is processed.
\<close>

definition os_cancel :: os where
  "os_cancel =
     (os0 2 [entry 1000 0x40, entry 1000 0x44, entry 0xDEAD 0])
       \<lparr>user_cancel := (\<lambda>i. i = 1), GetFileType := (\<lambda>i h. 3)\<rparr>"

text \<open>
  The second run of C2: the same two handles, no cancellation; the memory behind the
  two declared entries holds an entry of process 1000 as well.
\<close>

definition os_stale :: os where
  "os_stale =
     (os0 2 [entry 1000 0x40, entry 1000 0x44, entry 1000 0x48])
       \<lparr>GetFileType := (\<lambda>i h. 3)\<rparr>"

text \<open>
  The run of C3: a handle \<open>0x44\<close> of the caller, then a handle of process 1000, which
  cannot be opened.
\<close>

definition os_self :: os where
  "os_self =
     (os0 2 [entry 4242 0x44, entry 1000 0x40, entry 0xDEAD 0])
       \<lparr>NtOpenProcess := (\<lambda>i p. (STATUS_ACCESS_DENIED, 0))\<rparr>"

text \<open>
  The state in which \<^verbatim>\<open>SearchProcess\<close> enters the loop on \<open>os0\<close> from \<open>boot\<close>, a
  snapshot of one handle, and a system whose \<^verbatim>\<open>NtQueryObject\<close> asks for a larger buffer
  at every call.
\<close>

definition at_loop_entry :: state where
  "at_loop_entry =
     boot\<lparr>PhHeapHandle := 0x10000000, allocations := 2, handles := 0x20000000,
          buffer := 0x20100000, pid := (\<lambda>_. 0x5555)(0 := 0), cur_pid := 1,
          exe := (\<lambda>_. ''junk'')(0 := []), cur_exe := 1,
          wHandleName := widen volume_file, wHandleNameLen := 32, bufferSize := 0x200\<rparr>"

definition one_handle :: SYSTEM_HANDLE_INFORMATION_EX where
  "one_handle = \<lparr>NumberOfHandles = 1, Handles = [entry 1000 0x40, entry 0xDEAD 0]\<rparr>"

definition os_grow :: os where
  "os_grow =
     (os0 1 [entry 1000 0x40, entry 0xDEAD 0])
       \<lparr>NtQueryObject :=
          (\<lambda>i a h sz. (STATUS_BUFFER_TOO_SMALL, sz + 0x100, unicode_string_of []))\<rparr>"

text \<open>A system whose snapshot query never finds the buffer large enough.\<close>

definition os_never :: os where
  "os_never =
     (os0 0 [])\<lparr>NtQuerySystemInformation :=
        (\<lambda>k sz. (STATUS_INFO_LENGTH_MISMATCH, \<lparr>NumberOfHandles = 0, Handles = []\<rparr>))\<rparr>"

text \<open>
  The run of C9: three handles of process 1000, which cannot be opened, then one of
  process 2000.
\<close>

definition four_handles :: SYSTEM_HANDLE_INFORMATION_EX where
  "four_handles =
     \<lparr>NumberOfHandles = 4,
      Handles = [entry 1000 0x40, entry 1000 0x44, entry 1000 0x48, entry 2000 0x40,
                 entry 0xDEAD 0]\<rparr>"

definition os_denied :: os where
  "os_denied =
     (os0 (NumberOfHandles four_handles) (Handles four_handles))
       \<lparr>NtOpenProcess :=
          (\<lambda>i p. if p = 1000 then (STATUS_ACCESS_DENIED, 0) else (STATUS_SUCCESS, 0x100))\<rparr>"

definition denied_calls :: "event list" where
  "denied_calls =
     setup_calls @
     [Ev_ReadHandleInfo 0, Ev_PhOpenProcess 0 1000 STATUS_ACCESS_DENIED 0,
      Ev_uuprintf (Dbg_open_failed 1000 STATUS_ACCESS_DENIED),
      Ev_ReadHandleInfo 1, Ev_ReadHandleInfo 2,
      Ev_ReadHandleInfo 3, Ev_PhOpenProcess 3 2000 STATUS_SUCCESS 0x100,
      Ev_NtDuplicateObject 0x100 0x40 STATUS_SUCCESS, Ev_GetFileType 0x200,
      Ev_NtQueryObject 0x200 0x200 STATUS_SUCCESS 0x50,
      Ev_uprintf (Note_accessing volume_file),
      Ev_GetModuleFileNameExU 0x100 ''app.exe'', Ev_uprintf (Line_path ''app.exe''),
      Ev_NtClose 0x200, Ev_ReadHandleInfo 4, Ev_NtClose 0x100,
      Ev_uprintf Advice_close] @
     cleanup_calls"

text \<open>
  The run of C10: four matching handles, of the processes 1000, 1000, 2000 and 1000;
  the third resolves to \<^verbatim>\<open>b.exe\<close>, the others to \<^verbatim>\<open>a.exe\<close>.
\<close>

definition os_three :: os where
  "os_three =
     (os0 4 [entry 1000 0x40, entry 1000 0x44, entry 2000 0x40, entry 1000 0x48,
             entry 0xDEAD 0])
       \<lparr>GetModuleFileNameExU := (\<lambda>i h. if i = 2 then ''b.exe'' else ''a.exe'')\<rparr>"

definition three_calls :: "event list" where
  "three_calls =
     setup_calls @
     [Ev_ReadHandleInfo 0, Ev_PhOpenProcess 0 1000 STATUS_SUCCESS 0x100,
      Ev_NtDuplicateObject 0x100 0x40 STATUS_SUCCESS, Ev_GetFileType 0x200,
      Ev_NtQueryObject 0x200 0x200 STATUS_SUCCESS 0x50,
      Ev_uprintf (Note_accessing volume_file),
      Ev_GetModuleFileNameExU 0x100 ''a.exe'', Ev_uprintf (Line_path ''a.exe''),
      Ev_NtClose 0x200,
      Ev_ReadHandleInfo 1,
      Ev_NtDuplicateObject 0x100 0x44 STATUS_SUCCESS, Ev_GetFileType 0x200,
      Ev_NtQueryObject 0x200 0x200 STATUS_SUCCESS 0x50,
      Ev_GetModuleFileNameExU 0x100 ''a.exe'',
      Ev_NtClose 0x200,
      Ev_ReadHandleInfo 2, Ev_NtClose 0x100, Ev_PhOpenProcess 2 2000 STATUS_SUCCESS 0x100,
      Ev_NtDuplicateObject 0x100 0x40 STATUS_SUCCESS, Ev_GetFileType 0x200,
      Ev_NtQueryObject 0x200 0x200 STATUS_SUCCESS 0x50,
      Ev_GetModuleFileNameExU 0x100 ''b.exe'', Ev_uprintf (Line_path ''b.exe''),
      Ev_NtClose 0x200,
      Ev_ReadHandleInfo 3, Ev_NtClose 0x100, Ev_PhOpenProcess 3 1000 STATUS_SUCCESS 0x100,
      Ev_NtDuplicateObject 0x100 0x48 STATUS_SUCCESS, Ev_GetFileType 0x200,
      Ev_NtQueryObject 0x200 0x200 STATUS_SUCCESS 0x50,
      Ev_GetModuleFileNameExU 0x100 ''a.exe'', Ev_uprintf (Line_path ''a.exe''),
      Ev_NtClose 0x200,
      Ev_ReadHandleInfo 4, Ev_NtClose 0x100,
      Ev_uprintf Advice_close] @
     cleanup_calls"

text \<open>The snapshot of the run of C10: the memory holds one record behind the four declared.\<close>

definition snapshot_three :: SYSTEM_HANDLE_INFORMATION_EX where
  "snapshot_three =
     \<lparr>NumberOfHandles = 4,
      Handles = [entry 1000 0x40, entry 1000 0x44, entry 2000 0x40, entry 1000 0x48,
                 entry 0xDEAD 0]\<rparr>"

text \<open>
  A system whose \<^verbatim>\<open>NtQueryObject\<close> asks for 0x100 bytes more while the buffer is smaller
  than 0x400 bytes, and then returns the name.
\<close>

definition os_twice :: os where
  "os_twice =
     (os0 1 [entry 1000 0x40, entry 0xDEAD 0])
       \<lparr>NtQueryObject :=
          (\<lambda>i a h sz. if sz < 0x400
                       then (STATUS_BUFFER_TOO_SMALL, sz + 0x100, unicode_string_of [])
                       else (STATUS_SUCCESS, 0x50, unicode_string_of (widen volume_file)))\<rparr>"

text \<open>
  A system whose snapshot query finds the buffer too small twice and then succeeds.
\<close>

definition os_later :: os where
  "os_later =
     (os0 1 [entry 1000 0x40, entry 0xDEAD 0])\<lparr>NtQuerySystemInformation :=
        (\<lambda>k sz. if k < 2
                 then (STATUS_INFO_LENGTH_MISMATCH, \<lparr>NumberOfHandles = 0, Handles = []\<rparr>)
                 else (STATUS_SUCCESS,
                       \<lparr>NumberOfHandles = 1, Handles = [entry 1000 0x40, entry 0xDEAD 0]\<rparr>))\<rparr>"

section \<open>Observations of a run\<close>

text \<open>
  The statuses of the \<^verbatim>\<open>NtQueryObject\<close> calls in a record of calls, and the lines
  printed.
\<close>

fun queries :: "event list \<Rightarrow> NTSTATUS list" where
  "queries [] = []"
| "queries (Ev_NtQueryObject h b st r # es) = st # queries es"
| "queries (e # es) = queries es"

text \<open>
  \<open>follows r evs\<close>: in \<open>evs\<close> every allocation is of exactly the size the last
  \<^verbatim>\<open>NtQueryObject\<close> call reported with a size error, and the query after a size error
  is made with that size. \<open>r\<close> is the size last reported, when the last reply was a size
  error.
\<close>

fun follows :: "ULONG option \<Rightarrow> event list \<Rightarrow> bool" where
  "follows r [] = True"
| "follows r (Ev_NtQueryObject h b st ret # es) =
     ((case r of None \<Rightarrow> True | Some q \<Rightarrow> b = q) \<and>
      follows (if size_error st then Some ret else None) es)"
| "follows r (Ev_RtlAllocateHeap sz p # es) = (r = Some sz \<and> follows r es)"
| "follows r (e # es) = follows r es"

text \<open>
  The calls that neither close nor open a handle, read the snapshot, resolve a path or
  print a line.
\<close>

fun quiet :: "event \<Rightarrow> bool" where
  "quiet (Ev_NtClose h) = False"
| "quiet (Ev_PhOpenProcess i p st h) = False"
| "quiet (Ev_ReadHandleInfo i) = False"
| "quiet (Ev_GetModuleFileNameExU h p) = False"
| "quiet (Ev_uprintf l) = False"
| "quiet e = True"

fun prints :: "event list \<Rightarrow> line list" where
  "prints [] = []"
| "prints (Ev_uprintf l # es) = l # prints es"
| "prints (e # es) = prints es"

text \<open>
  The stages of an iteration before the name query (lines 410-474), and the state
  after one size error (lines 479-485).
\<close>

definition before_query ::
  "os \<Rightarrow> bool \<Rightarrow> SYSTEM_HANDLE_INFORMATION_EX \<Rightarrow> nat \<Rightarrow> state \<Rightarrow> flow" where
  "before_query w bIgnoreSelf snap i s =
     andthen (st_close_dup s) (\<lambda>s.
     andthen (st_track_pid snap i s) (\<lambda>s.
     andthen (st_cancel w i s) (\<lambda>s.
     andthen (st_denied snap i s) (\<lambda>s.
     andthen (st_exit snap i s) (\<lambda>s.
     andthen (st_open w snap i s) (\<lambda>s.
     andthen (st_dup w bIgnoreSelf snap i s) (\<lambda>s.
     st_filetype w i s)))))))"

definition resized :: "os \<Rightarrow> NTSTATUS \<Rightarrow> ULONG \<Rightarrow> UNICODE_STRING \<Rightarrow> state \<Rightarrow> state" where
  "resized w st ret mem s =
     (let s1 = (emit (Ev_NtQueryObject (dupHandle s) (bufferSize s) st ret) s)
                 \<lparr>status := st, buffer_mem := mem\<rparr>;
          s2 = (emit (Ev_uuprintf (Dbg_realloc (bufferSize s1) ret)) s1)\<lparr>bufferSize := ret\<rparr>;
          s3 = PhFree w (buffer s2) s2
      in case PhAllocate w (bufferSize s3) s3 of (p, s4) \<Rightarrow> s4\<lparr>buffer := p\<rparr>)"

text \<open>
  The sizes and statuses of the \<^verbatim>\<open>NtQuerySystemInformation\<close> calls in a record of
  calls.
\<close>

fun sysqueries :: "event list \<Rightarrow> (ULONG \<times> NTSTATUS) list" where
  "sysqueries [] = []"
| "sysqueries (Ev_NtQuerySystemInformation buf sz st # es) = (sz, st) # sysqueries es"
| "sysqueries (e # es) = sysqueries es"

text \<open>
  \<open>regrow b evs\<close>: in \<open>evs\<close> every query is made with the current size, starting with
  \<open>b\<close>; a query answered with \<^verbatim>\<open>STATUS_INFO_LENGTH_MISMATCH\<close> is followed at once by
  the release of the buffer it was made with, and the current size doubles; every
  allocation is of the current size.
\<close>

fun regrow :: "ULONG \<Rightarrow> event list \<Rightarrow> bool" where
  "regrow b [] = True"
| "regrow b (Ev_NtQuerySystemInformation buf sz st # es) =
     (sz = b \<and>
      (if st = STATUS_INFO_LENGTH_MISMATCH
       then (case es of Ev_RtlFreeHeap p # es' \<Rightarrow> p = buf \<and> regrow (b * 2) es' | _ \<Rightarrow> False)
       else regrow b es))"
| "regrow b (Ev_RtlAllocateHeap sz p # es) = (sz = b \<and> regrow b es)"
| "regrow b (e # es) = regrow b es"

text \<open>
  The status with which \<^verbatim>\<open>PhEnumHandlesEx\<close> ends after its last query, given the size and
  the status of that query.
\<close>

definition verdict :: "os \<Rightarrow> ULONG \<times> NTSTATUS \<Rightarrow> NTSTATUS" where
  "verdict w q =
     (if snd q = STATUS_INFO_LENGTH_MISMATCH
      then (if fst q * 2 > PH_LARGE_BUFFER_SIZE w then STATUS_INSUFFICIENT_RESOURCES
            else STATUS_NO_MEMORY)
      else snd q)"

text \<open>
  \<open>kept s s'\<close>: from \<open>s\<close> to \<open>s'\<close> the memo, the process handle, \<^verbatim>\<open>bFound\<close> and the
  two rings (\<^verbatim>\<open>pid\<close>, \<^verbatim>\<open>exe\<close> and their indices) are unchanged and only quiet calls
  were made.
\<close>

definition kept :: "state \<Rightarrow> state \<Rightarrow> bool" where
  "kept s s' =
     (last_access_denied_pid s' = last_access_denied_pid s \<and>
      processHandle s' = processHandle s \<and> bFound s' = bFound s \<and>
      pid s' = pid s \<and> cur_pid s' = cur_pid s \<and>
      exe s' = exe s \<and> cur_exe s' = cur_exe s \<and>
      (\<exists>evs. trace s' = trace s @ evs \<and> list_all quiet evs))"


text \<open>
  Parts of \<^verbatim>\<open>SearchProcess\<close>, named to state properties of them: the steps before the
  capture of the snapshot (lines 367-375), the capture with its guard (lines 377-378),
  the state after a \<^verbatim>\<open>STATUS_INFO_LENGTH_MISMATCH\<close> reply (lines 204 and 202), the state
  in which the loop is entered (lines 385-394), and the value returned by the cleanup.
\<close>

definition before_capture :: "os \<Rightarrow> state \<Rightarrow> NTSTATUS \<times> state" where
  "before_capture w g =
     (let s0 = locals w g;
          st1 = PF_INIT_OR_SET_STATUS w P_NtQueryObject (status s0);
          st2 = PF_INIT_OR_SET_STATUS w P_NtDuplicateObject st1;
          st3 = PF_INIT_OR_SET_STATUS w P_NtClose st2
      in if NT_SUCCESS st3 then PhCreateHeap w s0 else (st3, s0))"

definition capture :: "os \<Rightarrow> state \<Rightarrow> (NTSTATUS \<times> state) option" where
  "capture w g =
     (case before_capture w g of (st4, s1) \<Rightarrow>
        if NT_SUCCESS st4 then PhEnumHandlesEx w s1 else Some (st4, s1))"

definition requeried :: "os \<Rightarrow> PVOID \<Rightarrow> ULONG \<Rightarrow> NTSTATUS \<Rightarrow> state \<Rightarrow> state" where
  "requeried w buf sz st s = PhFree w buf (emit (Ev_NtQuerySystemInformation buf sz st) s)"

definition loop_entry :: "os \<Rightarrow> string \<Rightarrow> state \<Rightarrow> state" where
  "loop_entry w HandleName s2 =
     (let s3 = s2\<lparr>pid := (pid s2)(0 := 0), cur_pid := 1,
                  exe := (exe s2)(0 := []), cur_exe := 1,
                  wHandleName := utf8_to_wchar w HandleName,
                  wHandleNameLen := of_nat (wcslen (utf8_to_wchar w HandleName)),
                  bufferSize := 0x200\<rparr>
      in (snd (PhAllocate w (bufferSize s3) s3))
           \<lparr>buffer := fst (PhAllocate w (bufferSize s3) s3)\<rparr>)"

definition returned :: "bool \<times> state \<Rightarrow> result" where
  "returned r = Returned (fst r) (snd r)"

text \<open>
  Parts of one iteration, named to state properties of them: the state after lines
  410-413, the state after lines 422-432, and the stages from the duplication to the
  match (lines 460-506).
\<close>

definition closed :: "state \<Rightarrow> state" where
  "closed s = state_of (st_close_dup s)"

definition tracked :: "SYSTEM_HANDLE_INFORMATION_EX \<Rightarrow> nat \<Rightarrow> state \<Rightarrow> state" where
  "tracked snap i s = state_of (st_track_pid snap i s)"

definition resolve ::
  "os \<Rightarrow> bool \<Rightarrow> bool \<Rightarrow> SYSTEM_HANDLE_INFORMATION_EX \<Rightarrow> nat \<Rightarrow> state \<Rightarrow> flow" where
  "resolve w bPartialMatch bIgnoreSelf snap i s =
     andthen (st_dup w bIgnoreSelf snap i s) (\<lambda>s.
     andthen (st_filetype w i s) (\<lambda>s.
     andthen (st_query w snap i s) (\<lambda>s.
     st_match bPartialMatch s)))"

text \<open>
  The test of line 424, \<^verbatim>\<open>pid[0] != pid[1]\<close>, after line 422 has stored the process id of
  record \<open>i\<close>.
\<close>

definition pid_changed :: "SYSTEM_HANDLE_INFORMATION_EX \<Rightarrow> nat \<Rightarrow> state \<Rightarrow> bool" where
  "pid_changed snap i s =
     (((pid s)(cur_pid s := UniqueProcessId (Handles snap ! i))) 0 \<noteq>
      ((pid s)(cur_pid s := UniqueProcessId (Handles snap ! i))) 1)"

text \<open>
  The test of line 516, \<^verbatim>\<open>strcmp(exe[0], exe[1]) != 0\<close>, after line 514 has stored the
  path.
\<close>

definition ring_differs :: "state \<Rightarrow> string \<Rightarrow> bool" where
  "ring_differs s path =
     (((exe s)(cur_exe s := path)) 0 \<noteq> ((exe s)(cur_exe s := path)) 1)"

text \<open>
  What holds of the state \<open>e\<close> in which the loop is entered, in a call that started
  in \<open>g\<close>.
\<close>

definition at_entry :: "state \<Rightarrow> state \<Rightarrow> bool" where
  "at_entry g e =
     (pid e 0 = 0 \<and> cur_pid e = 1 \<and> exe e 0 = [] \<and> cur_exe e = 1 \<and>
      last_access_denied_pid e = 0 \<and> processHandle e = 0 \<and> bFound e = False \<and>
      (\<exists>evs. trace e = trace g @ evs \<and> list_all quiet evs))"

text \<open>
  The calls and lines outside the loop's own work: the quiet calls and every printed
  line but a path line.
\<close>

fun aside :: "event \<Rightarrow> bool" where
  "aside (Ev_uprintf (Line_path p)) = False"
| "aside (Ev_uprintf l) = True"
| "aside e = quiet e"

text \<open>
  The state a call leaves.
\<close>

definition final :: "result \<Rightarrow> state" where
  "final r = (case r of Returned b s \<Rightarrow> s | Aborted s \<Rightarrow> s)"

text \<open>
  The access-denied memo as the claim describes it, read off a record of calls:
  \<open>memo_after m evs\<close> is the memo after the calls \<open>evs\<close> when it was \<open>m\<close> before (every
  \<^verbatim>\<open>PhOpenProcess\<close> that fails with \<^verbatim>\<open>STATUS_ACCESS_DENIED\<close> sets it to the process id
  of the call), and \<open>memo_respected m evs\<close> says that no \<^verbatim>\<open>PhOpenProcess\<close> call in \<open>evs\<close>
  is for the process id the memo holds at the time of the call.
\<close>

fun is_open :: "event \<Rightarrow> bool" where
  "is_open (Ev_PhOpenProcess i p st h) = True"
| "is_open e = False"

fun memo_after :: "ULONG_PTR \<Rightarrow> event list \<Rightarrow> ULONG_PTR" where
  "memo_after m [] = m"
| "memo_after m (Ev_PhOpenProcess i p st h # es) =
     memo_after (if st = STATUS_ACCESS_DENIED then p else m) es"
| "memo_after m (e # es) = memo_after m es"

fun memo_respected :: "ULONG_PTR \<Rightarrow> event list \<Rightarrow> bool" where
  "memo_respected m [] = True"
| "memo_respected m (Ev_PhOpenProcess i p st h # es) =
     (p \<noteq> m \<and> memo_respected (if st = STATUS_ACCESS_DENIED then p else m) es)"
| "memo_respected m (e # es) = memo_respected m es"

text \<open>
  The invariant of the loop for the memo: the variable \<^verbatim>\<open>last_access_denied_pid\<close> is the
  memo read off the record of calls, and the record respects it.
\<close>

definition memo_inv :: "state \<Rightarrow> bool" where
  "memo_inv s =
     (last_access_denied_pid s = memo_after 0 (trace s) \<and> memo_respected 0 (trace s))"

text \<open>
  The executable paths resolved for the matches of a run, in order (a call of
  \<^verbatim>\<open>GetModuleFileNameExU\<close> that fails resolves none), and the paths printed in path
  lines.
\<close>

fun resolved :: "event list \<Rightarrow> string list" where
  "resolved [] = []"
| "resolved (Ev_GetModuleFileNameExU h p # es) = (if p = [] then resolved es else p # resolved es)"
| "resolved (e # es) = resolved es"

fun printed :: "event list \<Rightarrow> string list" where
  "printed [] = []"
| "printed (Ev_uprintf (Line_path p) # es) = p # printed es"
| "printed (e # es) = printed es"

text \<open>
  The invariant of the loop for the ring of reported paths: the slot that is not the
  current one holds the path resolved last (the empty string before the first), and
  the printed paths are the resolved ones with adjacent repetitions removed.
\<close>

definition ring_inv :: "state \<Rightarrow> bool" where
  "ring_inv s =
     (cur_exe s < 2 \<and>
      exe s (1 - cur_exe s) =
        (if resolved (trace s) = [] then [] else last (resolved (trace s))) \<and>
      printed (trace s) = remdups_adj (resolved (trace s)))"

text \<open>
  The process id that the slot of \<^verbatim>\<open>pid[]\<close> which is not current holds when record \<open>i\<close>
  is reached: the id of record \<open>i - 1\<close>, and the initial value 0 of \<^verbatim>\<open>pid[0]\<close> (line 385)
  before the first record.
\<close>

definition prevpid :: "SYSTEM_HANDLE_INFORMATION_EX \<Rightarrow> nat \<Rightarrow> ULONG_PTR" where
  "prevpid snap i = (if i = 0 then 0 else UniqueProcessId (Handles snap ! (i - 1)))"

text \<open>
  The process handle as the claim describes it, read off a record of calls.
  \<open>open_indices\<close> lists the records for which \<^verbatim>\<open>PhOpenProcess\<close> was called, in the order
  of the calls. \<open>run_start snap e\<close> says of a \<^verbatim>\<open>PhOpenProcess\<close> call that it is for a
  declared record, for the process id of that record, and that this id differs from
  the one before. \<open>slot_run held evs\<close> follows the handle held in \<^verbatim>\<open>processHandle\<close>
  through the calls \<open>evs\<close>: a \<^verbatim>\<open>NtClose\<close> of the handle held empties the slot, a
  \<^verbatim>\<open>PhOpenProcess\<close> fills it with the handle opened when the call succeeds and the
  handle is not the pseudo-handle of the caller, and the result is \<open>None\<close> as soon as
  \<^verbatim>\<open>PhOpenProcess\<close> is called while a handle is still held.
\<close>

fun open_indices :: "event list \<Rightarrow> nat list" where
  "open_indices [] = []"
| "open_indices (Ev_PhOpenProcess i p st h # es) = i # open_indices es"
| "open_indices (e # es) = open_indices es"

fun run_start :: "SYSTEM_HANDLE_INFORMATION_EX \<Rightarrow> event \<Rightarrow> bool" where
  "run_start snap (Ev_PhOpenProcess i p st h) =
     (i < NumberOfHandles snap \<and> p = UniqueProcessId (Handles snap ! i) \<and>
      p \<noteq> prevpid snap i)"
| "run_start snap e = True"

fun slot_run :: "HANDLE \<Rightarrow> event list \<Rightarrow> HANDLE option" where
  "slot_run held [] = Some held"
| "slot_run held (Ev_NtClose x # es) = slot_run (if x = held then 0 else held) es"
| "slot_run held (Ev_PhOpenProcess i p st h # es) =
     (if held = 0
      then slot_run (if NT_SUCCESS st \<and> h \<noteq> NtCurrentProcess then h else 0) es
      else None)"
| "slot_run held (e # es) = slot_run held es"

text \<open>
  The invariants of the loop for the process handle. The handle that the record of
  calls holds open is \<^verbatim>\<open>processHandle\<close> or none; the opens are for strictly increasing
  records, each the first of its run; all opens are for records before \<open>i\<close>; and the
  slot of \<^verbatim>\<open>pid[]\<close> that is not current holds the process id of the record before \<open>i\<close>.
\<close>

definition slot_inv :: "state \<Rightarrow> bool" where
  "slot_inv s =
     (\<exists>held. slot_run 0 (trace s) = Some held \<and> (held = 0 \<or> held = processHandle s) \<and>
             held \<noteq> NtCurrentProcess)"

definition run_inv :: "SYSTEM_HANDLE_INFORMATION_EX \<Rightarrow> state \<Rightarrow> bool" where
  "run_inv snap s =
     (sorted_wrt (<) (open_indices (trace s)) \<and> list_all (run_start snap) (trace s) \<and>
      slot_inv s)"

definition pid_inv :: "SYSTEM_HANDLE_INFORMATION_EX \<Rightarrow> nat \<Rightarrow> state \<Rightarrow> bool" where
  "pid_inv snap i s =
     (cur_pid s < 2 \<and> pid s (1 - cur_pid s) = prevpid snap i \<and>
      (\<forall>j \<in> set (open_indices (trace s)). j < i))"

text \<open>
  After lines 422-432 of iteration \<open>i\<close>: when the two slots of \<^verbatim>\<open>pid[]\<close> differ, the process
  id of record \<open>i\<close> differs from the one before and no process handle is held.
\<close>

definition fresh_slot :: "SYSTEM_HANDLE_INFORMATION_EX \<Rightarrow> nat \<Rightarrow> state \<Rightarrow> bool" where
  "fresh_slot snap i s =
     ((\<forall>j \<in> set (open_indices (trace s)). j < i) \<and>
      (pid s 0 \<noteq> pid s 1 \<longrightarrow>
         UniqueProcessId (Handles snap ! i) \<noteq> prevpid snap i \<and>
         slot_run 0 (trace s) = Some 0))"

text \<open>
  The sizes and the results of the \<^verbatim>\<open>RtlAllocateHeap\<close> calls in a record of calls.
\<close>

fun allocated :: "event list \<Rightarrow> (ULONG \<times> PVOID) list" where
  "allocated [] = []"
| "allocated (Ev_RtlAllocateHeap sz p # es) = (sz, p) # allocated es"
| "allocated (e # es) = allocated es"

text \<open>
  \<open>doubling w k m sz evs\<close>: \<open>evs\<close> are calls of the \<^verbatim>\<open>while\<close> loop of
  \<^verbatim>\<open>PhEnumHandlesEx\<close> entered with the size \<open>sz\<close> before query number \<open>k\<close> and after \<open>m\<close>
  allocations. Query \<open>j\<close> is made with \<open>sz\<close> doubled \<open>j\<close> times and has the status the
  system replies; allocation \<open>j\<close> is of \<open>sz\<close> doubled \<open>j + 1\<close> times and has the result of
  the system; every query but the last was answered \<^verbatim>\<open>STATUS_INFO_LENGTH_MISMATCH\<close> with
  the doubled size within the ceiling; and when the last query was answered so and
  \<^verbatim>\<open>RtlAllocateHeap\<close> is bound, an allocation follows it and returned \<^verbatim>\<open>NULL\<close>.
\<close>

definition doubling :: "os \<Rightarrow> nat \<Rightarrow> nat \<Rightarrow> ULONG \<Rightarrow> event list \<Rightarrow> bool" where
  "doubling w k m sz evs =
     ((\<forall>j < length (sysqueries evs).
         sysqueries evs ! j =
           (sz * 2 ^ j, fst (NtQuerySystemInformation w (k + j) (sz * 2 ^ j)))) \<and>
      (\<forall>j < length (allocated evs).
         allocated evs ! j =
           (sz * 2 ^ Suc j, RtlAllocateHeap w (m + j) (sz * 2 ^ Suc j))) \<and>
      (\<forall>q \<in> set (butlast (sysqueries evs)).
         snd q = STATUS_INFO_LENGTH_MISMATCH \<and> fst q * 2 \<le> PH_LARGE_BUFFER_SIZE w) \<and>
      (sysqueries evs \<noteq> [] \<and> snd (last (sysqueries evs)) = STATUS_INFO_LENGTH_MISMATCH \<and>
       fst (last (sysqueries evs)) * 2 \<le> PH_LARGE_BUFFER_SIZE w \<and>
       available w P_RtlAllocateHeap \<longrightarrow>
         length (allocated evs) = length (sysqueries evs) \<and> snd (last (allocated evs)) = 0))"

text \<open>
  \<open>doubled w m b evs\<close>: the same for the calls of a whole \<^verbatim>\<open>PhEnumHandlesEx\<close>, which
  start with the allocation of the initial size \<open>b\<close>.
\<close>

definition doubled :: "os \<Rightarrow> nat \<Rightarrow> ULONG \<Rightarrow> event list \<Rightarrow> bool" where
  "doubled w m b evs =
     ((\<forall>j < length (sysqueries evs).
         sysqueries evs ! j = (b * 2 ^ j, fst (NtQuerySystemInformation w j (b * 2 ^ j)))) \<and>
      (\<forall>j < length (allocated evs).
         allocated evs ! j = (b * 2 ^ j, RtlAllocateHeap w (m + j) (b * 2 ^ j))) \<and>
      (\<forall>q \<in> set (butlast (sysqueries evs)).
         snd q = STATUS_INFO_LENGTH_MISMATCH \<and> fst q * 2 \<le> PH_LARGE_BUFFER_SIZE w) \<and>
      (sysqueries evs \<noteq> [] \<and> snd (last (sysqueries evs)) = STATUS_INFO_LENGTH_MISMATCH \<and>
       fst (last (sysqueries evs)) * 2 \<le> PH_LARGE_BUFFER_SIZE w \<longrightarrow>
         length (allocated evs) = Suc (length (sysqueries evs)) \<and>
         snd (last (allocated evs)) = 0))"

text \<open>
  The sizes that the \<^verbatim>\<open>NtQueryObject\<close> calls answered with a size error reported as
  required, in a record of calls.
\<close>

fun reported :: "event list \<Rightarrow> ULONG list" where
  "reported [] = []"
| "reported (Ev_NtQueryObject h b st ret # es) =
     (if size_error st then ret # reported es else reported es)"
| "reported (e # es) = reported es"

section \<open>The name query\<close>

lemma query_loop_unfold:
  assumes "NtQueryObject w i a (dupHandle s) (bufferSize s) = (st, ret, mem)"
  shows "query_loop w i a s =
     (if size_error st then
        (if a - 1 \<noteq> 0 then query_loop w i (a - 1) (resized w st ret mem s)
         else resized w st ret mem s)
      else (emit (Ev_NtQueryObject (dupHandle s) (bufferSize s) st ret) s)
             \<lparr>status := st, buffer_mem := mem\<rparr>)"
  using assms
  by (subst query_loop.simps) (simp add: resized_def Let_def split: prod.splits)

lemma resized_fields:
  "dupHandle (resized w st ret mem s) = dupHandle s"
  "bufferSize (resized w st ret mem s) = ret"
  "status (resized w st ret mem s) = st"
  by (simp_all add: resized_def PhFree_def PhAllocate_def emit_def Let_def split: prod.splits)

lemma resized_trace:
  "trace (resized w st ret mem s) =
     trace s @ [Ev_NtQueryObject (dupHandle s) (bufferSize s) st ret,
                Ev_uuprintf (Dbg_realloc (bufferSize s) ret)]
     @ (if available w P_RtlFreeHeap then [Ev_RtlFreeHeap (buffer s)] else [])
     @ (if available w P_RtlAllocateHeap
        then [Ev_RtlAllocateHeap ret (RtlAllocateHeap w (allocations s) ret)] else [])"
  by (simp add: resized_def PhFree_def PhAllocate_def emit_def Let_def split: prod.splits)

lemma queries_append [simp]: "queries (xs @ ys) = queries xs @ queries ys"
  by (induction xs rule: queries.induct) auto

lemma follows_append_quiet:
  "queries xs = [] \<Longrightarrow> (\<And>sz p. Ev_RtlAllocateHeap sz p \<notin> set xs) \<Longrightarrow>
   follows r (xs @ ys) = follows r ys"
  by (induction r xs rule: follows.induct) auto

lemma query_loop_calls:
  "\<exists>evs. trace (query_loop w i a s) = trace s @ evs
     \<and> follows (Some (bufferSize s)) evs
     \<and> queries evs \<noteq> []
     \<and> status (query_loop w i a s) = last (queries evs)
     \<and> length (queries evs) =
         min (unat (a - 1) + 1) (length (filter size_error (queries evs)) + 1)
     \<and> (\<forall>st \<in> set (queries evs). \<exists>a h b. st = fst (NtQueryObject w i a h b))"
proof (induction "unat (a - 1)" arbitrary: a s)
  case 0
  obtain st ret mem where q: "NtQueryObject w i a (dupHandle s) (bufferSize s) = (st, ret, mem)"
    by (cases "NtQueryObject w i a (dupHandle s) (bufferSize s)") auto
  have rep: "\<exists>a h b. st = fst (NtQueryObject w i a h b)"
    using q by (metis fst_conv)
  from 0 have a1: "a - 1 = 0" by (simp add: unat_eq_0)
  show ?case
  proof (cases "size_error st")
    case True
    have u: "query_loop w i a s = resized w st ret mem s"
      using True a1 by (simp only: query_loop_unfold [OF q] if_True if_False not_True_eq_False simp_thms)
    show ?thesis
      unfolding u
      apply (rule exI [of _ "drop (length (trace s)) (trace (resized w st ret mem s))"])
      using True 0 rep
      apply (simp add: resized_trace resized_fields)
      done
  next
    case False
    have u: "query_loop w i a s = (emit (Ev_NtQueryObject (dupHandle s) (bufferSize s) st ret) s)
             \<lparr>status := st, buffer_mem := mem\<rparr>"
      using False by (simp only: query_loop_unfold [OF q] if_True if_False simp_thms)
    show ?thesis
      unfolding u
      apply (rule exI [of _ "[Ev_NtQueryObject (dupHandle s) (bufferSize s) st ret]"])
      using False rep
      apply (simp add: emit_def)
      done
  qed
next
  case (Suc n)
  obtain st ret mem where q: "NtQueryObject w i a (dupHandle s) (bufferSize s) = (st, ret, mem)"
    by (cases "NtQueryObject w i a (dupHandle s) (bufferSize s)") auto
  have rep: "\<exists>a h b. st = fst (NtQueryObject w i a h b)"
    using q by (metis fst_conv)
  from Suc(2) have a1: "a - 1 \<noteq> 0" by auto
  have "unat (a - 1 - 1) = unat (a - 1) - 1"
    using a1 by (rule unat_minus_one)
  with Suc(2) have n: "n = unat (a - 1 - 1)"
    by (simp only: diff_Suc_1 flip: Suc(2))
  show ?case
  proof (cases "size_error st")
    case True
    let ?s' = "resized w st ret mem s"
    from Suc(1) [OF n, of ?s'] obtain evs where
      e: "trace (query_loop w i (a - 1) ?s') = trace ?s' @ evs"
         "follows (Some (bufferSize ?s')) evs" "queries evs \<noteq> []"
         "status (query_loop w i (a - 1) ?s') = last (queries evs)"
         "length (queries evs) =
            min (unat (a - 1 - 1) + 1) (length (filter size_error (queries evs)) + 1)"
         "\<forall>st \<in> set (queries evs). \<exists>a h b. st = fst (NtQueryObject w i a h b)"
      by blast
    have u: "query_loop w i a s = query_loop w i (a - 1) ?s'"
      using True a1 by (simp only: query_loop_unfold [OF q] if_True if_False simp_thms)
    have m: "unat (a - 1) = Suc (unat (a - 1 - 1))"
      using Suc(2) n by simp
    show ?thesis
      unfolding u
      apply (rule exI [of _ "drop (length (trace s)) (trace ?s') @ evs"])
      using e True m rep
      apply (simp add: resized_trace resized_fields)
      done
  next
    case False
    have u: "query_loop w i a s = (emit (Ev_NtQueryObject (dupHandle s) (bufferSize s) st ret) s)
             \<lparr>status := st, buffer_mem := mem\<rparr>"
      using False by (simp only: query_loop_unfold [OF q] if_True if_False simp_thms)
    show ?thesis
      unfolding u
      apply (rule exI [of _ "[Ev_NtQueryObject (dupHandle s) (bufferSize s) st ret]"])
      using False rep
      apply (simp add: emit_def)
      done
  qed
qed


lemma prints_append [simp]: "prints (xs @ ys) = prints xs @ prints ys"
  by (induction xs rule: prints.induct) auto

lemma prints_quiet: "list_all quiet evs \<Longrightarrow> prints evs = []"
  by (induction evs rule: prints.induct) auto

lemma resized_quiet:
  "list_all quiet (drop (length (trace s)) (trace (resized w st ret mem s)))"
  by (simp add: resized_trace)

lemma resized_bFound: "bFound (resized w st ret mem s) = bFound s"
  by (simp add: resized_def PhFree_def PhAllocate_def emit_def Let_def split: prod.splits)

lemma query_loop_quiet:
  "bFound (query_loop w i a s) = bFound s \<and>
   (\<exists>evs. trace (query_loop w i a s) = trace s @ evs \<and> list_all quiet evs)"
proof (induction "unat (a - 1)" arbitrary: a s)
  case 0
  obtain st ret mem where q: "NtQueryObject w i a (dupHandle s) (bufferSize s) = (st, ret, mem)"
    by (cases "NtQueryObject w i a (dupHandle s) (bufferSize s)") auto
  from 0 have a1: "a - 1 = 0" by (simp add: unat_eq_0)
  have "query_loop w i a s = resized w st ret mem s \<or>
        query_loop w i a s = (emit (Ev_NtQueryObject (dupHandle s) (bufferSize s) st ret) s)
             \<lparr>status := st, buffer_mem := mem\<rparr>"
    using a1 by (simp only: query_loop_unfold [OF q] if_True if_False simp_thms split: if_splits)
  then show ?case
    by (auto simp: resized_trace resized_bFound emit_def)
next
  case (Suc n)
  obtain st ret mem where q: "NtQueryObject w i a (dupHandle s) (bufferSize s) = (st, ret, mem)"
    by (cases "NtQueryObject w i a (dupHandle s) (bufferSize s)") auto
  from Suc(2) have a1: "a - 1 \<noteq> 0" by auto
  have "unat (a - 1 - 1) = unat (a - 1) - 1"
    using a1 by (rule unat_minus_one)
  with Suc(2) have n: "n = unat (a - 1 - 1)"
    by (simp only: diff_Suc_1 flip: Suc(2))
  let ?s' = "resized w st ret mem s"
  have "query_loop w i a s = query_loop w i (a - 1) ?s' \<or>
        query_loop w i a s = (emit (Ev_NtQueryObject (dupHandle s) (bufferSize s) st ret) s)
             \<lparr>status := st, buffer_mem := mem\<rparr>"
    using a1 by (simp only: query_loop_unfold [OF q] if_True if_False simp_thms split: if_splits)
  then show ?case
  proof
    assume u: "query_loop w i a s = query_loop w i (a - 1) ?s'"
    from Suc(1) [OF n, of ?s'] obtain evs where
      e: "bFound (query_loop w i (a - 1) ?s') = bFound ?s'"
         "trace (query_loop w i (a - 1) ?s') = trace ?s' @ evs" "list_all quiet evs"
      by blast
    show ?thesis
      unfolding u
      using e by (simp add: resized_trace resized_bFound)
  next
    assume "query_loop w i a s = (emit (Ev_NtQueryObject (dupHandle s) (bufferSize s) st ret) s)
             \<lparr>status := st, buffer_mem := mem\<rparr>"
    then show ?thesis by (simp add: emit_def)
  qed
qed

lemma andthen_simps [simp]:
  "andthen (Next s) g = g s"
  "andthen (Continue s) g = Continue s"
  "andthen (Break s) g = Break s"
  "andthen (Fault s) g = Fault s"
  by (simp_all add: andthen_def)

lemma andthen_assoc: "andthen (andthen f g) h = andthen f (\<lambda>s. andthen (g s) h)"
  by (cases f) simp_all

lemma loop_body_by_query:
  "loop_body w n pm ig snap i s =
     andthen (before_query w ig snap i s) (\<lambda>s.
     andthen (st_query w snap i s) (\<lambda>s.
     andthen (st_match pm s) (st_report w n i)))"
  by (simp add: loop_body_def before_query_def andthen_assoc)

lemma size_error_fails: "size_error st \<Longrightarrow> \<not> NT_SUCCESS st"
  by (auto simp: size_error_def ntdefs)

lemma all_size_errors_exhaust:
  assumes "length qs = min 8 (length (filter size_error qs) + 1)"
    and "\<forall>st \<in> set qs. st = c" and "size_error c"
  shows "qs = replicate 8 c"
proof -
  have "filter size_error qs = qs"
    using assms(2,3) by (auto simp: filter_id_conv)
  with assms(1) have "length qs = 8" by simp
  with assms(2) show ?thesis
    by (metis replicate_eqI)
qed

section \<open>The capture of the snapshot\<close>

lemma kept_refl [simp]: "kept s s"
  by (simp add: kept_def)

lemma kept_trans: "kept s t \<Longrightarrow> kept t u \<Longrightarrow> kept s u"
  by (auto simp: kept_def)

lemma kept_emit: "quiet e \<Longrightarrow> kept s (emit e s)"
  by (simp add: kept_def emit_def)

lemma kept_PhFree: "kept s (PhFree w p s)"
  by (simp add: PhFree_def kept_emit)

lemma kept_PhAllocate: "kept s (snd (PhAllocate w sz s))"
  by (simp add: PhAllocate_def kept_def emit_def Let_def)

lemma kept_PhCreateHeap: "kept s (snd (PhCreateHeap w s))"
  by (simp add: PhCreateHeap_def kept_def emit_def Let_def)

lemma kept_PhDestroyHeap: "kept s (snd (PhDestroyHeap w s))"
  by (simp add: PhDestroyHeap_def kept_def emit_def Let_def)

lemma double_unat: "(sz :: ULONG) < 0x80000000 \<Longrightarrow> unat (sz * 2) = 2 * unat sz"
  by (simp add: unat_word_ariths word_less_nat_alt)

lemma enum_step:
  assumes "NtQuerySystemInformation w k sz = (st, mem)"
  shows "PhEnumHandlesEx_loop w k buf sz s =
     (if st = STATUS_INFO_LENGTH_MISMATCH then
        (if PH_LARGE_BUFFER_SIZE w < sz * 2
         then Some (STATUS_INSUFFICIENT_RESOURCES, requeried w buf sz st s)
         else if fst (PhAllocate w (sz * 2) (requeried w buf sz st s)) = 0
         then Some (STATUS_NO_MEMORY, snd (PhAllocate w (sz * 2) (requeried w buf sz st s)))
         else PhEnumHandlesEx_loop w (Suc k)
                (fst (PhAllocate w (sz * 2) (requeried w buf sz st s))) (sz * 2)
                (snd (PhAllocate w (sz * 2) (requeried w buf sz st s))))
      else if \<not> NT_SUCCESS st
      then Some (st, requeried w buf sz st s)
      else Some (st, (if sz \<le> 0x200000
                      then (emit (Ev_NtQuerySystemInformation buf sz st) s)
                             \<lparr>initialBufferSize := sz\<rparr>
                      else emit (Ev_NtQuerySystemInformation buf sz st) s)
                       \<lparr>handles := buf, handles_mem := mem\<rparr>))"
  by (subst PhEnumHandlesEx_loop.simps)
     (simp add: assms Let_def requeried_def split: prod.splits)

lemma kept_requeried: "kept s (requeried w buf sz st s)"
  unfolding requeried_def
  by (rule kept_trans [OF kept_emit kept_PhFree]) simp

lemma enum_loop_kept:
  assumes "PhEnumHandlesEx_loop w k buf sz s = Some y"
  shows "kept s (snd y)"
proof (rule PhEnumHandlesEx_loop.raw_induct
         [where P = "\<lambda>w k buf sz s y. kept s (snd y)", OF _ assms], goal_cases)
  case (1 f w k buf sz s y)
  obtain st mem where q: "NtQuerySystemInformation w k sz = (st, mem)"
    by (cases "NtQuerySystemInformation w k sz") auto
  let ?s2 = "requeried w buf sz st s"
  let ?a = "PhAllocate w (sz * 2) ?s2"
  have k2: "kept s ?s2" by (rule kept_requeried)
  have k3: "kept s (snd ?a)"
    by (rule kept_trans [OF k2 kept_PhAllocate])
  from 1(2) have cases:
     "y = (STATUS_INSUFFICIENT_RESOURCES, ?s2)
    \<or> y = (STATUS_NO_MEMORY, snd ?a)
    \<or> f w (Suc k) (fst ?a) (sz * 2) (snd ?a) = Some y
    \<or> y = (st, ?s2)
    \<or> y = (st, (if sz \<le> 0x200000
                      then (emit (Ev_NtQuerySystemInformation buf sz st) s)
                             \<lparr>initialBufferSize := sz\<rparr>
                      else emit (Ev_NtQuerySystemInformation buf sz st) s)
                       \<lparr>handles := buf, handles_mem := mem\<rparr>)"
    by (simp add: q Let_def requeried_def split: prod.splits if_splits)
  then show ?case
  proof (elim disjE)
    assume "f w (Suc k) (fst ?a) (sz * 2) (snd ?a) = Some y"
    then have "kept (snd ?a) (snd y)" using 1(1) by blast
    with k3 show ?thesis by (rule kept_trans)
  next
    assume "y = (st, (if sz \<le> 0x200000
                      then (emit (Ev_NtQuerySystemInformation buf sz st) s)
                             \<lparr>initialBufferSize := sz\<rparr>
                      else emit (Ev_NtQuerySystemInformation buf sz st) s)
                       \<lparr>handles := buf, handles_mem := mem\<rparr>)"
    then show ?thesis by (simp add: kept_def emit_def)
  qed (simp_all add: k2 k3)
qed

lemma PhEnumHandlesEx_unfold:
  "PhEnumHandlesEx w s =
     (if \<not> NT_SUCCESS (PF_INIT_OR_SET_STATUS w P_NtQuerySystemInformation STATUS_SUCCESS)
      then Some (PF_INIT_OR_SET_STATUS w P_NtQuerySystemInformation STATUS_SUCCESS, s)
      else if fst (PhAllocate w (initialBufferSize s) s) = 0
      then Some (STATUS_NO_MEMORY, snd (PhAllocate w (initialBufferSize s) s))
      else PhEnumHandlesEx_loop w 0 (fst (PhAllocate w (initialBufferSize s) s))
             (initialBufferSize s) (snd (PhAllocate w (initialBufferSize s) s)))"
  by (simp add: PhEnumHandlesEx_def Let_def split: prod.splits)

lemma PhEnumHandlesEx_kept:
  assumes "PhEnumHandlesEx w s = Some y"
  shows "kept s (snd y)"
proof -
  let ?a = "PhAllocate w (initialBufferSize s) s"
  from assms have
    "y = (PF_INIT_OR_SET_STATUS w P_NtQuerySystemInformation STATUS_SUCCESS, s)
     \<or> y = (STATUS_NO_MEMORY, snd ?a)
     \<or> PhEnumHandlesEx_loop w 0 (fst ?a) (initialBufferSize s) (snd ?a) = Some y"
    by (simp add: PhEnumHandlesEx_unfold split: if_splits)
  then show ?thesis
  proof (elim disjE)
    assume "PhEnumHandlesEx_loop w 0 (fst ?a) (initialBufferSize s) (snd ?a) = Some y"
    then have "kept (snd ?a) (snd y)" by (rule enum_loop_kept)
    with kept_PhAllocate show ?thesis by (rule kept_trans)
  qed (simp_all add: kept_PhAllocate)
qed


lemma sysqueries_append [simp]: "sysqueries (xs @ ys) = sysqueries xs @ sysqueries ys"
  by (induction xs rule: sysqueries.induct) auto

lemma requeried_trace:
  "available w P_RtlFreeHeap \<Longrightarrow>
   trace (requeried w buf sz st s) =
     trace s @ [Ev_NtQuerySystemInformation buf sz st, Ev_RtlFreeHeap buf]"
  by (simp add: requeried_def PhFree_def emit_def)

lemma PhAllocate_trace:
  "trace (snd (PhAllocate w b s)) =
     trace s @ (if available w P_RtlAllocateHeap
                then [Ev_RtlAllocateHeap b (RtlAllocateHeap w (allocations s) b)] else [])"
  by (simp add: PhAllocate_def emit_def Let_def)

lemma enum_loop_returns:
  assumes ceiling: "PH_LARGE_BUFFER_SIZE w < 0x80000000"
    and free: "available w P_RtlFreeHeap"
  shows "sz \<noteq> 0 \<Longrightarrow> sz < 0x80000000 \<Longrightarrow>
    \<exists>st s' evs. PhEnumHandlesEx_loop w k buf sz s = Some (st, s')
       \<and> trace s' = trace s @ evs \<and> regrow sz evs \<and> sysqueries evs \<noteq> []
       \<and> st = verdict w (last (sysqueries evs))"
proof (induction "2 ^ 31 - unat sz" arbitrary: k buf sz s rule: less_induct)
  case less
  obtain st mem where q: "NtQuerySystemInformation w k sz = (st, mem)"
    by (cases "NtQuerySystemInformation w k sz") auto
  let ?s2 = "requeried w buf sz st s"
  let ?a = "PhAllocate w (sz * 2) ?s2"
  note step = enum_step [OF q, of buf s]
  show ?case
  proof (cases "st = STATUS_INFO_LENGTH_MISMATCH")
    case False
    then show ?thesis
      unfolding step
      by (simp add: requeried_trace [OF free] emit_def verdict_def)
  next
    case True
    show ?thesis
    proof (cases "PH_LARGE_BUFFER_SIZE w < sz * 2")
      case over: True
      show ?thesis
        unfolding step using True over
        by (simp add: requeried_trace [OF free] verdict_def)
    next
      case under: False
      show ?thesis
      proof (cases "fst ?a = 0")
        case nomem: True
        have "PhEnumHandlesEx_loop w k buf sz s = Some (STATUS_NO_MEMORY, snd ?a)"
          unfolding step using True under nomem by simp
        moreover have "trace (snd ?a) = trace s @
            ([Ev_NtQuerySystemInformation buf sz st, Ev_RtlFreeHeap buf] @
             (if available w P_RtlAllocateHeap
              then [Ev_RtlAllocateHeap (sz * 2)
                      (RtlAllocateHeap w (allocations ?s2) (sz * 2))] else []))"
          by (simp add: PhAllocate_trace requeried_trace [OF free])
        ultimately show ?thesis
          using True under by (auto simp: verdict_def)
      next
        case again: False
        have u: "PhEnumHandlesEx_loop w k buf sz s =
            PhEnumHandlesEx_loop w (Suc k) (fst ?a) (sz * 2) (snd ?a)"
          unfolding step using True under again by simp
        have d: "unat (sz * 2) = 2 * unat sz"
          using less.prems(2) by (rule double_unat)
        have pos: "0 < unat sz"
          using less.prems(1) by (simp add: unat_gt_0)
        have small: "unat sz < 2 ^ 31"
          using less.prems(2) by (simp add: word_less_nat_alt)
        have le: "sz * 2 \<le> PH_LARGE_BUFFER_SIZE w"
          using under by simp
        have lt2: "sz * 2 < 0x80000000"
          using le ceiling by (rule le_less_trans)
        have nz2: "sz * 2 \<noteq> 0"
          using d pos by (metis mult_is_0 not_less_zero unat_0 zero_neq_numeral)
        have "unat (sz * 2) < 2 ^ 31"
          using lt2 by (simp add: word_less_nat_alt)
        then have m: "2 ^ 31 - unat (sz * 2) < 2 ^ 31 - unat sz"
          using d pos by simp
        from less.hyps [OF m nz2 lt2, of "Suc k" "fst ?a" "snd ?a"]
        obtain st' s' evs where r:
          "PhEnumHandlesEx_loop w (Suc k) (fst ?a) (sz * 2) (snd ?a) = Some (st', s')"
          "trace s' = trace (snd ?a) @ evs" "regrow (sz * 2) evs" "sysqueries evs \<noteq> []"
          "st' = verdict w (last (sysqueries evs))"
          by blast
        have av: "available w P_RtlAllocateHeap"
          using again by (auto simp: PhAllocate_def split: if_splits)
        have t: "trace s' = trace s @
            ([Ev_NtQuerySystemInformation buf sz st, Ev_RtlFreeHeap buf,
              Ev_RtlAllocateHeap (sz * 2) (RtlAllocateHeap w (allocations ?s2) (sz * 2))]
             @ evs)"
          using r(2) av by (simp add: PhAllocate_trace requeried_trace [OF free])
        show ?thesis
          unfolding u r(1)
          using t r(3,4,5) True by auto
      qed
    qed
  qed
qed


lemma SearchProcess_by_capture:
  "SearchProcess w n pm ig g =
     (case capture w g of
        None \<Rightarrow> None
      | Some (st5, s2) \<Rightarrow>
          if \<not> NT_SUCCESS st5
          then Some (returned (out w n (emit (Ev_uprintf (Warn_enumerate st5))
                                          (s2\<lparr>status := st5\<rparr>))))
          else if buffer (loop_entry w n (s2\<lparr>status := st5\<rparr>)) = 0
          then Some (returned (out w n (loop_entry w n (s2\<lparr>status := st5\<rparr>))))
          else (case search_loop w n pm ig
                       (handles_mem (loop_entry w n (s2\<lparr>status := st5\<rparr>))) 0
                       (loop_entry w n (s2\<lparr>status := st5\<rparr>)) of
                  Finished s5 \<Rightarrow> Some (returned (out w n s5))
                | Crashed s5 \<Rightarrow> Some (Aborted s5)))"
  unfolding SearchProcess_def capture_def before_capture_def loop_entry_def returned_def Let_def
  by (simp add: PhAllocate_def Let_def split: prod.splits option.splits ending.splits)


lemma before_capture_kept: "kept (locals w g) (snd (before_capture w g))"
  by (simp add: before_capture_def Let_def kept_PhCreateHeap)

lemma before_capture_size:
  "initialBufferSize (snd (before_capture w g)) = initialBufferSize g"
  by (simp add: before_capture_def Let_def PhCreateHeap_def locals_def emit_def)

lemma capture_kept:
  assumes "capture w g = Some (st, s)"
  shows "kept (locals w g) s"
proof (cases "NT_SUCCESS (fst (before_capture w g))")
  case True
  with assms have "PhEnumHandlesEx w (snd (before_capture w g)) = Some (st, s)"
    by (simp add: capture_def split: prod.splits)
  then have "kept (snd (before_capture w g)) s"
    using PhEnumHandlesEx_kept by fastforce
  with before_capture_kept show ?thesis by (rule kept_trans)
next
  case False
  with assms have "s = snd (before_capture w g)"
    by (auto simp: capture_def split: prod.splits)
  then show ?thesis by (simp add: before_capture_kept)
qed

lemma out_result: "fst (out w n s) = bFound s"
  by (simp add: out_def Let_def PhFree_def PhDestroyHeap_def emit_def)

lemma out_prints:
  "prints (trace (snd (out w n s))) =
     prints (trace s) @ [if bFound s then Advice_close else Note_not_identified n]"
  by (simp add: out_def Let_def PhFree_def PhDestroyHeap_def emit_def)

lemma PhEnumHandlesEx_returns:
  assumes ceiling: "PH_LARGE_BUFFER_SIZE w < 0x80000000"
    and free: "available w P_RtlFreeHeap"
    and nz: "initialBufferSize s \<noteq> 0" and small: "initialBufferSize s < 0x80000000"
  shows "\<exists>st s' evs. PhEnumHandlesEx w s = Some (st, s')
       \<and> trace s' = trace s @ evs \<and> regrow (initialBufferSize s) evs
       \<and> (sysqueries evs \<noteq> [] \<longrightarrow> st = verdict w (last (sysqueries evs)))"
proof -
  let ?a = "PhAllocate w (initialBufferSize s) s"
  consider
      (cap) "\<not> NT_SUCCESS (PF_INIT_OR_SET_STATUS w P_NtQuerySystemInformation STATUS_SUCCESS)"
    | (nomem) "NT_SUCCESS (PF_INIT_OR_SET_STATUS w P_NtQuerySystemInformation STATUS_SUCCESS)"
        "fst ?a = 0"
    | (loop) "NT_SUCCESS (PF_INIT_OR_SET_STATUS w P_NtQuerySystemInformation STATUS_SUCCESS)"
        "fst ?a \<noteq> 0"
    by blast
  then show ?thesis
  proof cases
    case cap
    then show ?thesis by (simp add: PhEnumHandlesEx_unfold)
  next
    case nomem
    then have "PhEnumHandlesEx w s = Some (STATUS_NO_MEMORY, snd ?a)"
      by (simp add: PhEnumHandlesEx_unfold)
    moreover have "trace (snd ?a) = trace s @
        (if available w P_RtlAllocateHeap
         then [Ev_RtlAllocateHeap (initialBufferSize s)
                 (RtlAllocateHeap w (allocations s) (initialBufferSize s))] else [])"
      by (rule PhAllocate_trace)
    ultimately show ?thesis by auto
  next
    case loop
    then have u: "PhEnumHandlesEx w s =
        PhEnumHandlesEx_loop w 0 (fst ?a) (initialBufferSize s) (snd ?a)"
      by (simp add: PhEnumHandlesEx_unfold)
    from enum_loop_returns [OF ceiling free nz small, of 0 "fst ?a" "snd ?a"]
    obtain st s' evs where r:
      "PhEnumHandlesEx_loop w 0 (fst ?a) (initialBufferSize s) (snd ?a) = Some (st, s')"
      "trace s' = trace (snd ?a) @ evs" "regrow (initialBufferSize s) evs"
      "sysqueries evs \<noteq> []" "st = verdict w (last (sysqueries evs))"
      by blast
    have "trace s' = trace s @
        ((if available w P_RtlAllocateHeap
          then [Ev_RtlAllocateHeap (initialBufferSize s)
                  (RtlAllocateHeap w (allocations s) (initialBufferSize s))] else []) @ evs)"
      using r(2) by (simp add: PhAllocate_trace)
    then show ?thesis
      unfolding u r(1) using r(3,4,5) by auto
  qed
qed

section \<open>The loop\<close>

lemma loop_body_shape:
  "loop_body w n pm ig snap i s =
     (if length (Handles snap) \<le> i then Fault (closed s)
      else if CHECK_FOR_USER_CANCEL w i then Break (tracked snap i (closed s))
      else if UniqueProcessId (Handles snap ! i) =
                last_access_denied_pid (tracked snap i (closed s))
      then Continue (tracked snap i (closed s))
      else if NumberOfHandles snap \<le> i then Break (tracked snap i (closed s))
      else andthen (st_open w snap i (tracked snap i (closed s))) (\<lambda>s.
           andthen (resolve w pm ig snap i s) (st_report w n i)))"
proof -
  have c: "st_close_dup s = Next (closed s)"
    by (simp add: closed_def st_close_dup_def)
  have f: "st_track_pid snap i t = Fault t" if "length (Handles snap) \<le> i" for t
    using that by (simp add: st_track_pid_def)
  have t: "st_track_pid snap i t = Next (tracked snap i t)" if "\<not> length (Handles snap) \<le> i" for t
    using that by (simp add: tracked_def st_track_pid_def Let_def)
  show ?thesis
    by (simp add: loop_body_def c f t st_cancel_def st_denied_def st_exit_def
          resolve_def andthen_assoc)
qed

lemma search_loop_rule:
  assumes step: "\<And>i s. Aux i s \<Longrightarrow> Tr s \<Longrightarrow>
            Tr (state_of (loop_body w n pm ig snap i s)) \<and>
            (is_Next (loop_body w n pm ig snap i s) \<or>
             is_Continue (loop_body w n pm ig snap i s) \<longrightarrow>
               Aux (Suc i) (state_of (loop_body w n pm ig snap i s)))"
  shows "Aux i s \<Longrightarrow> Tr s \<Longrightarrow> Tr (ending_state (search_loop w n pm ig snap i s))"
proof (induction "length (Handles snap) - i" arbitrary: i s rule: less_induct)
  case less
  note st = step [OF less.prems(1) less.prems(2)]
  show ?case
  proof (cases "loop_body w n pm ig snap i s")
    case (Next s')
    from st have a: "Aux (Suc i) s'" "Tr s'" by (simp_all add: Next)
    have "i < length (Handles snap)"
      using Next loop_body_in_memory by blast
    then have "length (Handles snap) - Suc i < length (Handles snap) - i" by simp
    then have "Tr (ending_state (search_loop w n pm ig snap (Suc i) s'))"
      using a by (rule less.hyps)
    then show ?thesis
      by (subst search_loop.simps) (simp add: Next)
  next
    case (Continue s')
    from st have a: "Aux (Suc i) s'" "Tr s'" by (simp_all add: Continue)
    have "i < length (Handles snap)"
      using Continue loop_body_in_memory by blast
    then have "length (Handles snap) - Suc i < length (Handles snap) - i" by simp
    then have "Tr (ending_state (search_loop w n pm ig snap (Suc i) s'))"
      using a by (rule less.hyps)
    then show ?thesis
      by (subst search_loop.simps) (simp add: Continue)
  next
    case (Break s')
    from st have "Tr s'" by (simp add: Break)
    then show ?thesis
      by (subst search_loop.simps) (simp add: Break)
  next
    case (Fault s')
    from st have "Tr s'" by (simp add: Fault)
    then show ?thesis
      by (subst search_loop.simps) (simp add: Fault)
  qed
qed

lemma closed_trace:
  "trace (closed s) =
     trace s @ (if dupHandle s \<noteq> 0 \<and> processHandle s \<noteq> NtCurrentProcess
                then [Ev_NtClose (dupHandle s)] else [])"
  by (simp add: closed_def st_close_dup_def emit_def)

lemma closed_fields [simp]:
  "pid (closed s) = pid s" "cur_pid (closed s) = cur_pid s"
  "last_access_denied_pid (closed s) = last_access_denied_pid s"
  "processHandle (closed s) = processHandle s" "bFound (closed s) = bFound s"
  "exe (closed s) = exe s" "cur_exe (closed s) = cur_exe s"
  "handles_mem (closed s) = handles_mem s"
  by (simp_all add: closed_def st_close_dup_def emit_def)

lemma tracked_trace:
  "i < length (Handles snap) \<Longrightarrow>
   trace (tracked snap i s) =
     trace s @ [Ev_ReadHandleInfo i] @
     (if pid_changed snap i s \<and> processHandle s \<noteq> 0 \<and> processHandle s \<noteq> NtCurrentProcess
      then [Ev_NtClose (processHandle s)] else [])"
  by (simp add: tracked_def st_track_pid_def pid_changed_def emit_def Let_def)

lemma tracked_fields [simp]:
  assumes "i < length (Handles snap)"
  shows "pid (tracked snap i s) = (pid s)(cur_pid s := UniqueProcessId (Handles snap ! i))"
    and "cur_pid (tracked snap i s) =
           (if pid_changed snap i s then (cur_pid s + 1) mod 2 else cur_pid s)"
    and "processHandle (tracked snap i s) =
           (if pid_changed snap i s then 0 else processHandle s)"
    and "last_access_denied_pid (tracked snap i s) = last_access_denied_pid s"
    and "bFound (tracked snap i s) = bFound s"
    and "exe (tracked snap i s) = exe s" and "cur_exe (tracked snap i s) = cur_exe s"
    and "handles_mem (tracked snap i s) = handles_mem s"
  using assms
  by (simp_all add: tracked_def st_track_pid_def pid_changed_def emit_def Let_def)

lemma st_open_cases:
  "st_open w snap i s =
     (if pid s 0 \<noteq> pid s 1 then
        (if NT_SUCCESS (fst (PhOpenProcess w i (UniqueProcessId (Handles snap ! i))
                               (processHandle s)))
         then Next (state_of (st_open w snap i s))
         else Continue (state_of (st_open w snap i s)))
      else Next s)"
  by (simp add: st_open_def Let_def split: prod.splits)

lemma st_open_trace:
  "trace (state_of (st_open w snap i s)) =
     trace s @
     (if pid s 0 \<noteq> pid s 1 then
        (case PhOpenProcess w i (UniqueProcessId (Handles snap ! i)) (processHandle s) of
           (st, h) \<Rightarrow>
             Ev_PhOpenProcess i (UniqueProcessId (Handles snap ! i)) st h #
             (if NT_SUCCESS st then []
              else [Ev_uuprintf (Dbg_open_failed (UniqueProcessId (Handles snap ! i)) st)]))
      else [])"
  by (simp add: st_open_def Let_def emit_def split: prod.splits)

lemma st_open_fields [simp]:
  "pid (state_of (st_open w snap i s)) = pid s"
  "cur_pid (state_of (st_open w snap i s)) = cur_pid s"
  "bFound (state_of (st_open w snap i s)) = bFound s"
  "exe (state_of (st_open w snap i s)) = exe s"
  "cur_exe (state_of (st_open w snap i s)) = cur_exe s"
  "handles_mem (state_of (st_open w snap i s)) = handles_mem s"
  by (simp_all add: st_open_def Let_def emit_def split: prod.splits)

lemma st_open_memo:
  "last_access_denied_pid (state_of (st_open w snap i s)) =
     (if pid s 0 \<noteq> pid s 1 \<and>
         fst (PhOpenProcess w i (UniqueProcessId (Handles snap ! i)) (processHandle s))
           = STATUS_ACCESS_DENIED
      then UniqueProcessId (Handles snap ! i) else last_access_denied_pid s)"
  by (simp add: st_open_def Let_def emit_def ntdefs split: prod.splits)

lemma st_open_handle:
  "processHandle (state_of (st_open w snap i s)) =
     (if pid s 0 \<noteq> pid s 1 then
        (case PhOpenProcess w i (UniqueProcessId (Handles snap ! i)) (processHandle s) of
           (st, h) \<Rightarrow> if NT_SUCCESS st then h else 0)
      else processHandle s)"
  by (simp add: st_open_def Let_def emit_def split: prod.splits)

lemma kept_status [simp]: "kept s (s\<lparr>status := st\<rparr>)"
  by (simp add: kept_def)

lemma st_dup_kept: "kept s (state_of (st_dup w ig snap i s))"
  by (simp add: st_dup_def kept_def emit_def Let_def split: prod.splits option.splits)

lemma st_filetype_kept: "kept s (state_of (st_filetype w i s))"
  by (simp add: st_filetype_def kept_def emit_def Let_def)

lemma st_match_kept: "kept s (state_of (st_match pm s))"
  by (simp add: st_match_def)

lemma resized_kept: "kept s (resized w st ret mem s)"
  by (simp add: resized_def kept_def PhFree_def PhAllocate_def emit_def Let_def
           split: prod.splits)

lemma query_loop_kept: "kept s (query_loop w i a s)"
proof (induction "unat (a - 1)" arbitrary: a s)
  case 0
  obtain st ret mem where q: "NtQueryObject w i a (dupHandle s) (bufferSize s) = (st, ret, mem)"
    by (cases "NtQueryObject w i a (dupHandle s) (bufferSize s)") auto
  from 0 have a1: "a - 1 = 0" by (simp add: unat_eq_0)
  have "query_loop w i a s = resized w st ret mem s \<or>
        query_loop w i a s = (emit (Ev_NtQueryObject (dupHandle s) (bufferSize s) st ret) s)
             \<lparr>status := st, buffer_mem := mem\<rparr>"
    using a1 by (simp only: query_loop_unfold [OF q] if_True if_False simp_thms split: if_splits)
  then show ?case
    by (auto simp: resized_kept) (simp add: kept_def emit_def)
next
  case (Suc n)
  obtain st ret mem where q: "NtQueryObject w i a (dupHandle s) (bufferSize s) = (st, ret, mem)"
    by (cases "NtQueryObject w i a (dupHandle s) (bufferSize s)") auto
  from Suc(2) have a1: "a - 1 \<noteq> 0" by auto
  have "unat (a - 1 - 1) = unat (a - 1) - 1"
    using a1 by (rule unat_minus_one)
  with Suc(2) have n: "n = unat (a - 1 - 1)"
    by (simp only: diff_Suc_1 flip: Suc(2))
  let ?s' = "resized w st ret mem s"
  have "query_loop w i a s = query_loop w i (a - 1) ?s' \<or>
        query_loop w i a s = (emit (Ev_NtQueryObject (dupHandle s) (bufferSize s) st ret) s)
             \<lparr>status := st, buffer_mem := mem\<rparr>"
    using a1 by (simp only: query_loop_unfold [OF q] if_True if_False simp_thms split: if_splits)
  then show ?case
  proof
    assume u: "query_loop w i a s = query_loop w i (a - 1) ?s'"
    have "kept ?s' (query_loop w i (a - 1) ?s')"
      by (rule Suc(1) [OF n])
    with resized_kept show ?thesis
      unfolding u by (rule kept_trans)
  next
    assume "query_loop w i a s = (emit (Ev_NtQueryObject (dupHandle s) (bufferSize s) st ret) s)
             \<lparr>status := st, buffer_mem := mem\<rparr>"
    then show ?thesis by (simp add: kept_def emit_def)
  qed
qed

lemma st_query_kept: "kept s (state_of (st_query w snap i s))"
proof -
  have "kept (query_loop w i 8 s) (state_of (st_query w snap i s))"
    by (simp add: st_query_def Let_def kept_emit)
  with query_loop_kept show ?thesis by (rule kept_trans)
qed

lemma kept_andthen:
  assumes "kept s (state_of f)" and "\<And>t. kept t (state_of (g t))"
  shows "kept s (state_of (andthen f g))"
proof (cases f)
  case (Next t)
  with assms(1) have "kept s t" by simp
  moreover have "kept t (state_of (g t))" by (rule assms(2))
  ultimately show ?thesis by (simp add: Next kept_trans)
qed (use assms(1) in simp_all)

lemma resolve_kept: "kept s (state_of (resolve w pm ig snap i s))"
  unfolding resolve_def
  by (intro kept_andthen st_dup_kept st_filetype_kept st_query_kept st_match_kept)

lemma st_report_Next: "st_report w n i s = Next (state_of (st_report w n i s))"
  by (simp add: st_report_def Let_def)

lemma st_report_fields [simp]:
  "pid (state_of (st_report w n i s)) = pid s"
  "cur_pid (state_of (st_report w n i s)) = cur_pid s"
  "last_access_denied_pid (state_of (st_report w n i s)) = last_access_denied_pid s"
  "processHandle (state_of (st_report w n i s)) = processHandle s"
  by (simp_all add: st_report_def Let_def emit_def)

lemma st_report_trace:
  "trace (state_of (st_report w n i s)) =
     trace s @ (if bFound s then [] else [Ev_uprintf (Note_accessing n)]) @
     [Ev_GetModuleFileNameExU (processHandle s) (GetModuleFileNameExU w i (processHandle s))] @
     (if GetModuleFileNameExU w i (processHandle s) = []
      then [Ev_uprintf (Line_unknown (GetProcessId w (processHandle s)))]
      else if ring_differs s (GetModuleFileNameExU w i (processHandle s))
      then [Ev_uprintf (Line_path (GetModuleFileNameExU w i (processHandle s)))]
      else [])"
  by (simp add: st_report_def Let_def emit_def ring_differs_def)

lemma st_report_ring:
  "exe (state_of (st_report w n i s)) =
     (if GetModuleFileNameExU w i (processHandle s) = [] then exe s
      else (exe s)(cur_exe s := GetModuleFileNameExU w i (processHandle s)))"
  "cur_exe (state_of (st_report w n i s)) =
     (if GetModuleFileNameExU w i (processHandle s) \<noteq> [] \<and>
         ring_differs s (GetModuleFileNameExU w i (processHandle s))
      then (cur_exe s + 1) mod 2 else cur_exe s)"
  unfolding ring_differs_def st_report_def Let_def emit_def
  by (simp_all del: fun_upd_apply)

lemma loop_entry_at_entry:
  assumes "capture w g = Some (st, s)"
  shows "at_entry g (loop_entry w n (s\<lparr>status := st\<rparr>))"
proof -
  from capture_kept [OF assms] have k: "kept (locals w g) s" .
  then obtain evs where e: "trace s = trace g @ evs" "list_all quiet evs"
    by (auto simp: kept_def locals_def)
  from k have f: "last_access_denied_pid s = 0" "processHandle s = 0" "bFound s = False"
    by (simp_all add: kept_def locals_def)
  show ?thesis
    using e f
    by (simp add: at_entry_def loop_entry_def Let_def PhAllocate_def emit_def)
qed

lemma loop_entry_snapshot:
  "handles_mem (loop_entry w n s) = handles_mem s"
  by (simp add: loop_entry_def Let_def PhAllocate_def emit_def)

lemma quiet_aside: "list_all quiet evs \<Longrightarrow> list_all aside evs"
  by (induction evs) (auto elim: quiet.elims)

lemma out_aside:
  "\<exists>evs. trace (snd (out w n s)) = trace s @ evs \<and> list_all aside evs"
  by (simp add: out_def Let_def PhFree_def PhDestroyHeap_def emit_def)

lemma SearchProcess_trace:
  assumes run: "SearchProcess w n pm ig g = Some r"
  shows "(\<exists>evs. trace (final r) = trace g @ evs \<and> list_all aside evs)
       \<or> (\<exists>st s post. capture w g = Some (st, s) \<and> list_all aside post
            \<and> trace (final r) =
                trace (ending_state (search_loop w n pm ig (handles_mem s) 0
                                       (loop_entry w n (s\<lparr>status := st\<rparr>)))) @ post)"
proof -
  from run obtain st s where c: "capture w g = Some (st, s)"
    by (cases "capture w g") (auto simp: SearchProcess_by_capture)
  let ?e = "loop_entry w n (s\<lparr>status := st\<rparr>)"
  have hm: "handles_mem ?e = handles_mem s" by (simp add: loop_entry_snapshot)
  from capture_kept [OF c] obtain pre where
    pre: "trace s = trace g @ pre" "list_all quiet pre"
    by (auto simp: kept_def locals_def)
  from loop_entry_at_entry [OF c, of n] obtain pre' where
    pre': "trace ?e = trace g @ pre'" "list_all quiet pre'"
    by (auto simp: at_entry_def)
  consider (fail) "\<not> NT_SUCCESS st" | (nomem) "NT_SUCCESS st" "buffer ?e = 0"
    | (loop) "NT_SUCCESS st" "buffer ?e \<noteq> 0" by blast
  then show ?thesis
  proof cases
    case fail
    let ?s = "emit (Ev_uprintf (Warn_enumerate st)) (s\<lparr>status := st\<rparr>)"
    have r: "r = returned (out w n ?s)"
      using run c fail by (simp add: SearchProcess_by_capture)
    obtain evs where o: "trace (snd (out w n ?s)) = trace ?s @ evs" "list_all aside evs"
      using out_aside by blast
    have "trace (final r) = trace g @ (pre @ [Ev_uprintf (Warn_enumerate st)] @ evs)"
      using o(1) pre(1) by (simp add: r returned_def final_def emit_def)
    moreover have "list_all aside (pre @ [Ev_uprintf (Warn_enumerate st)] @ evs)"
      using o(2) quiet_aside [OF pre(2)] by simp
    ultimately show ?thesis by blast
  next
    case nomem
    have r: "r = returned (out w n ?e)"
      using run c nomem by (simp add: SearchProcess_by_capture)
    obtain evs where o: "trace (snd (out w n ?e)) = trace ?e @ evs" "list_all aside evs"
      using out_aside by blast
    have "trace (final r) = trace g @ (pre' @ evs)"
      using o(1) pre'(1) by (simp add: r returned_def final_def)
    moreover have "list_all aside (pre' @ evs)"
      using o(2) quiet_aside [OF pre'(2)] by simp
    ultimately show ?thesis by blast
  next
    case loop
    show ?thesis
    proof (cases "search_loop w n pm ig (handles_mem s) 0 ?e")
      case (Finished s5)
      have r: "r = returned (out w n s5)"
        using run c loop Finished by (simp add: SearchProcess_by_capture hm)
      obtain evs where o: "trace (snd (out w n s5)) = trace s5 @ evs" "list_all aside evs"
        using out_aside by blast
      have "trace (final r) =
          trace (ending_state (search_loop w n pm ig (handles_mem s) 0 ?e)) @ evs"
        using o(1) by (simp add: r returned_def final_def Finished)
      with c o(2) show ?thesis by blast
    next
      case (Crashed s5)
      have r: "r = Aborted s5"
        using run c loop Crashed by (simp add: SearchProcess_by_capture hm)
      have "trace (final r) =
          trace (ending_state (search_loop w n pm ig (handles_mem s) 0 ?e)) @ []"
        by (simp add: r final_def Crashed)
      moreover have "list_all aside []" by simp
      ultimately show ?thesis using c by blast
    qed
  qed
qed

lemma memo_after_append [simp]:
  "memo_after m (xs @ ys) = memo_after (memo_after m xs) ys"
  by (induction m xs rule: memo_after.induct) auto

lemma memo_respected_append [simp]:
  "memo_respected m (xs @ ys) =
     (memo_respected m xs \<and> memo_respected (memo_after m xs) ys)"
  by (induction m xs rule: memo_respected.induct) auto

lemma memo_no_open:
  "list_all (\<lambda>e. \<not> is_open e) evs \<Longrightarrow> memo_after m evs = m \<and> memo_respected m evs"
  by (induction m evs rule: memo_after.induct) auto

lemma quiet_not_open: "list_all quiet evs \<Longrightarrow> list_all (\<lambda>e. \<not> is_open e) evs"
  by (induction evs) (auto elim: is_open.elims)

lemma aside_not_open: "list_all aside evs \<Longrightarrow> list_all (\<lambda>e. \<not> is_open e) evs"
  by (induction evs) (auto elim: is_open.elims)

lemma memo_inv_kept: "memo_inv s \<Longrightarrow> kept s s' \<Longrightarrow> memo_inv s'"
  by (auto simp: memo_inv_def kept_def dest!: quiet_not_open memo_no_open)

lemma memo_inv_closed: "memo_inv s \<Longrightarrow> memo_inv (closed s)"
  by (simp add: memo_inv_def closed_trace)

lemma memo_inv_tracked:
  "i < length (Handles snap) \<Longrightarrow> memo_inv s \<Longrightarrow> memo_inv (tracked snap i s)"
  by (simp add: memo_inv_def tracked_trace)

lemma memo_inv_open:
  assumes "memo_inv s" "UniqueProcessId (Handles snap ! i) \<noteq> last_access_denied_pid s"
  shows "memo_inv (state_of (st_open w snap i s))"
  using assms
  by (simp add: memo_inv_def st_open_trace st_open_memo split: prod.splits)

lemma memo_inv_report: "memo_inv s \<Longrightarrow> memo_inv (state_of (st_report w n i s))"
  by (simp add: memo_inv_def st_report_trace)

lemma tail_rule:
  assumes "P s"
    and kept: "\<And>s s'. P s \<Longrightarrow> kept s s' \<Longrightarrow> P s'"
    and report: "\<And>s. P s \<Longrightarrow> P (state_of (st_report w n i s))"
  shows "P (state_of (andthen (resolve w pm ig snap i s) (st_report w n i)))"
proof -
  have r: "P (state_of (resolve w pm ig snap i s))"
    using assms(1) resolve_kept by (rule kept)
  show ?thesis
  proof (cases "resolve w pm ig snap i s")
    case (Next t)
    with r have "P t" by simp
    then have "P (state_of (st_report w n i t))" by (rule report)
    then show ?thesis by (simp add: Next)
  qed (use r in simp_all)
qed

lemma open_tail_rule:
  assumes "P (state_of (st_open w snap i s))"
    and kept: "\<And>s s'. P s \<Longrightarrow> kept s s' \<Longrightarrow> P s'"
    and report: "\<And>s. P s \<Longrightarrow> P (state_of (st_report w n i s))"
  shows "P (state_of (andthen (st_open w snap i s) (\<lambda>s.
           andthen (resolve w pm ig snap i s) (st_report w n i))))"
proof (cases "st_open w snap i s")
  case (Next t)
  with assms(1) have "P t" by simp
  then have "P (state_of (andthen (resolve w pm ig snap i t) (st_report w n i)))"
    using kept report by (rule tail_rule)
  then show ?thesis by (simp add: Next)
qed (use assms(1) in simp_all)

lemma memo_inv_body:
  assumes "memo_inv s"
  shows "memo_inv (state_of (loop_body w n pm ig snap i s))"
proof -
  have c: "memo_inv (closed s)" using assms by (rule memo_inv_closed)
  show ?thesis
  proof (cases "length (Handles snap) \<le> i")
    case True
    then show ?thesis by (simp add: loop_body_shape c)
  next
    case False
    then have i: "i < length (Handles snap)" by simp
    let ?t = "tracked snap i (closed s)"
    have t: "memo_inv ?t" using i c by (rule memo_inv_tracked)
    show ?thesis
    proof (cases "CHECK_FOR_USER_CANCEL w i
                  \<or> UniqueProcessId (Handles snap ! i) = last_access_denied_pid ?t
                  \<or> NumberOfHandles snap \<le> i")
      case True
      then show ?thesis using False t by (auto simp: loop_body_shape)
    next
      case go: False
      then have "memo_inv (state_of (st_open w snap i ?t))"
        using t by (intro memo_inv_open) simp_all
      then have "memo_inv (state_of (andthen (st_open w snap i ?t) (\<lambda>s.
           andthen (resolve w pm ig snap i s) (st_report w n i))))"
        using memo_inv_kept memo_inv_report by (rule open_tail_rule)
      then show ?thesis using False go by (simp add: loop_body_shape)
    qed
  qed
qed

lemma memo_inv_loop:
  "memo_inv s \<Longrightarrow> memo_inv (ending_state (search_loop w n pm ig snap i s))"
  by (rule search_loop_rule [where Aux = "\<lambda>i s. True" and Tr = memo_inv])
     (simp_all add: memo_inv_body)

lemma memo_inv_entry: "trace g = [] \<Longrightarrow> at_entry g e \<Longrightarrow> memo_inv e"
  by (auto simp: at_entry_def memo_inv_def dest!: quiet_not_open memo_no_open)

lemma observe_final:
  assumes "observe x = Some (b, tr)"
  shows "\<exists>r. x = Some r \<and> trace (final r) = tr"
proof (cases x)
  case None
  with assms show ?thesis by (simp add: observe_def)
next
  case (Some r)
  with assms have "trace (final r) = tr"
    by (cases r) (simp_all add: observe_def final_def)
  with Some show ?thesis by simp
qed

lemma resolved_append [simp]: "resolved (xs @ ys) = resolved xs @ resolved ys"
  by (induction xs rule: resolved.induct) auto

lemma printed_append [simp]: "printed (xs @ ys) = printed xs @ printed ys"
  by (induction xs rule: printed.induct) auto

lemma aside_no_path: "list_all aside evs \<Longrightarrow> resolved evs = [] \<and> printed evs = []"
  by (induction evs rule: printed.induct) auto

lemma remdups_adj_snoc:
  "remdups_adj (xs @ [p]) =
     (if xs \<noteq> [] \<and> last xs = p then remdups_adj xs else remdups_adj xs @ [p])"
proof (cases xs rule: rev_cases)
  case Nil
  then show ?thesis by simp
next
  case (snoc ys y)
  then show ?thesis by (simp add: remdups_adj_append_two)
qed

lemma ring_inv_kept: "ring_inv s \<Longrightarrow> kept s s' \<Longrightarrow> ring_inv s'"
  by (auto simp: ring_inv_def kept_def dest!: quiet_aside aside_no_path)

lemma ring_inv_closed: "ring_inv s \<Longrightarrow> ring_inv (closed s)"
  by (simp add: ring_inv_def closed_trace)

lemma ring_inv_tracked:
  "i < length (Handles snap) \<Longrightarrow> ring_inv s \<Longrightarrow> ring_inv (tracked snap i s)"
  by (simp add: ring_inv_def tracked_trace)

lemma ring_inv_open: "ring_inv s \<Longrightarrow> ring_inv (state_of (st_open w snap i s))"
  by (simp add: ring_inv_def st_open_trace split: prod.splits)

lemma ring_differs_iff:
  "cur_exe s < 2 \<Longrightarrow> ring_differs s path = (path \<noteq> exe s (1 - cur_exe s))"
  by (cases "cur_exe s = 0") (auto simp: ring_differs_def)

lemma ring_inv_report:
  assumes "ring_inv s"
  shows "ring_inv (state_of (st_report w n i s))"
proof -
  let ?p = "GetModuleFileNameExU w i (processHandle s)"
  let ?r = "resolved (trace s)"
  from assms have c: "cur_exe s < 2"
    and l: "exe s (1 - cur_exe s) = (if ?r = [] then [] else last ?r)"
    and e: "printed (trace s) = remdups_adj ?r"
    by (simp_all add: ring_inv_def)
  show ?thesis
  proof (cases "?p = []")
    case True
    then show ?thesis
      using c l e by (simp add: ring_inv_def st_report_trace st_report_ring)
  next
    case False
    note d = ring_differs_iff [OF c, of ?p]
    from c have two: "cur_exe s = 0 \<or> cur_exe s = 1" by auto
    show ?thesis
    proof (cases "?p = exe s (1 - cur_exe s)")
      case True
      with False l have h: "?r \<noteq> []" "last ?r = ?p" by (auto split: if_splits)
      from True d have rd: "\<not> ring_differs s ?p" by simp
      have x: "exe (state_of (st_report w n i s)) (1 - cur_exe (state_of (st_report w n i s)))
                 = ?p"
        using two False rd True by (auto simp: st_report_ring)
      have y: "cur_exe (state_of (st_report w n i s)) < 2"
        using c rd by (simp add: st_report_ring)
      have z: "resolved (trace (state_of (st_report w n i s))) = ?r @ [?p]"
              "printed (trace (state_of (st_report w n i s))) = printed (trace s)"
        using False rd by (simp_all add: st_report_trace)
      show ?thesis
        unfolding ring_inv_def z x using y e h by (simp add: remdups_adj_snoc)
    next
      case diff: False
      with l have h: "?r = [] \<or> last ?r \<noteq> ?p" by (auto split: if_splits)
      from diff d have rd: "ring_differs s ?p" by simp
      have x: "exe (state_of (st_report w n i s)) (1 - cur_exe (state_of (st_report w n i s)))
                 = ?p"
        using two False rd by (auto simp: st_report_ring)
      have y: "cur_exe (state_of (st_report w n i s)) < 2"
        using c rd by (simp add: st_report_ring)
      have z: "resolved (trace (state_of (st_report w n i s))) = ?r @ [?p]"
              "printed (trace (state_of (st_report w n i s))) = printed (trace s) @ [?p]"
        using False rd by (simp_all add: st_report_trace)
      show ?thesis
        unfolding ring_inv_def z x using y e h by (auto simp: remdups_adj_snoc)
    qed
  qed
qed

lemma ring_inv_body:
  assumes "ring_inv s"
  shows "ring_inv (state_of (loop_body w n pm ig snap i s))"
proof -
  have c: "ring_inv (closed s)" using assms by (rule ring_inv_closed)
  show ?thesis
  proof (cases "length (Handles snap) \<le> i")
    case True
    then show ?thesis by (simp add: loop_body_shape c)
  next
    case False
    then have i: "i < length (Handles snap)" by simp
    let ?t = "tracked snap i (closed s)"
    have t: "ring_inv ?t" using i c by (rule ring_inv_tracked)
    have "ring_inv (state_of (st_open w snap i ?t))"
      using t by (rule ring_inv_open)
    then have "ring_inv (state_of (andthen (st_open w snap i ?t) (\<lambda>s.
           andthen (resolve w pm ig snap i s) (st_report w n i))))"
      using ring_inv_kept ring_inv_report by (rule open_tail_rule)
    then show ?thesis using False t by (simp add: loop_body_shape)
  qed
qed

lemma ring_inv_loop:
  "ring_inv s \<Longrightarrow> ring_inv (ending_state (search_loop w n pm ig snap i s))"
  by (rule search_loop_rule [where Aux = "\<lambda>i s. True" and Tr = ring_inv])
     (simp_all add: ring_inv_body)

lemma ring_inv_entry: "trace g = [] \<Longrightarrow> at_entry g e \<Longrightarrow> ring_inv e"
  by (auto simp: at_entry_def ring_inv_def dest!: quiet_aside aside_no_path)

lemma three_calls_run:
  "observe (SearchProcess os_three volume_file True True boot) = Some (Some True, three_calls)"
  by code_simp

lemma open_indices_append [simp]:
  "open_indices (xs @ ys) = open_indices xs @ open_indices ys"
  by (induction xs rule: open_indices.induct) auto

lemma slot_run_append:
  "slot_run h (xs @ ys) = (case slot_run h xs of None \<Rightarrow> None | Some h' \<Rightarrow> slot_run h' ys)"
  by (induction h xs rule: slot_run.induct) auto

lemma aside_no_handle:
  "list_all aside evs \<Longrightarrow>
     open_indices evs = [] \<and> list_all (run_start snap) evs \<and> slot_run h evs = Some h"
  by (induction evs rule: printed.induct) auto

lemma slot_inv_aside:
  assumes "slot_inv s" "trace s' = trace s @ evs" "list_all aside evs"
    "processHandle s' = processHandle s"
  shows "slot_inv s'"
  using assms aside_no_handle [OF assms(3)]
  by (auto simp: slot_inv_def slot_run_append)

lemma run_inv_kept: "run_inv snap s \<Longrightarrow> kept s s' \<Longrightarrow> run_inv snap s'"
proof -
  assume r: "run_inv snap s" and k: "kept s s'"
  from k obtain evs where e: "trace s' = trace s @ evs" "list_all quiet evs"
    and p: "processHandle s' = processHandle s"
    by (auto simp: kept_def)
  note a = quiet_aside [OF e(2)]
  from r have "slot_inv s" by (simp add: run_inv_def)
  then have "slot_inv s'" using e(1) a p by (rule slot_inv_aside)
  then show ?thesis
    using r e(1) aside_no_handle [OF a, of snap] by (simp add: run_inv_def)
qed

lemma pid_inv_kept: "pid_inv snap i s \<Longrightarrow> kept s s' \<Longrightarrow> pid_inv snap i s'"
  by (auto simp: pid_inv_def kept_def dest!: quiet_aside aside_no_handle)

lemma self_not_null: "NtCurrentProcess \<noteq> 0"
  by (simp add: ntdefs)

lemma run_inv_closed: "run_inv snap s \<Longrightarrow> run_inv snap (closed s)"
  by (auto simp: run_inv_def slot_inv_def closed_trace slot_run_append self_not_null)

lemma pid_inv_closed: "pid_inv snap i s \<Longrightarrow> pid_inv snap i (closed s)"
  by (simp add: pid_inv_def closed_trace)

lemma pid_changed_iff:
  assumes "cur_pid s < 2" "pid s (1 - cur_pid s) = prevpid snap i"
  shows "pid_changed snap i s = (UniqueProcessId (Handles snap ! i) \<noteq> prevpid snap i)"
  using assms by (cases "cur_pid s = 0") (auto simp: pid_changed_def)

lemma tracked_pid_inv:
  assumes i: "i < length (Handles snap)" and p: "pid_inv snap i s"
  shows "pid_inv snap (Suc i) (tracked snap i s)"
proof -
  from p have c: "cur_pid s < 2" and v: "pid s (1 - cur_pid s) = prevpid snap i"
    and o: "\<forall>j \<in> set (open_indices (trace s)). j < i"
    by (simp_all add: pid_inv_def)
  note ch = pid_changed_iff [OF c v]
  from c have two: "cur_pid s = 0 \<or> cur_pid s = 1" by auto
  have n: "prevpid snap (Suc i) = UniqueProcessId (Handles snap ! i)"
    by (simp add: prevpid_def)
  have a: "cur_pid (tracked snap i s) < 2"
    using i c by simp
  have b: "pid (tracked snap i s) (1 - cur_pid (tracked snap i s)) =
             UniqueProcessId (Handles snap ! i)"
    using two i v ch by (auto simp: ch)
  have d: "\<forall>j \<in> set (open_indices (trace (tracked snap i s))). j < Suc i"
    using o i by (auto simp: tracked_trace)
  show ?thesis
    unfolding pid_inv_def n using a b d by simp
qed

lemma tracked_run_inv:
  assumes i: "i < length (Handles snap)" and r: "run_inv snap s"
  shows "run_inv snap (tracked snap i s)"
  using assms
  by (auto simp: run_inv_def slot_inv_def tracked_trace slot_run_append self_not_null)

lemma tracked_fresh_slot:
  assumes i: "i < length (Handles snap)" and p: "pid_inv snap i s" and r: "run_inv snap s"
  shows "fresh_slot snap i (tracked snap i s)"
proof -
  from p have c: "cur_pid s < 2" and v: "pid s (1 - cur_pid s) = prevpid snap i"
    and o: "\<forall>j \<in> set (open_indices (trace s)). j < i"
    by (simp_all add: pid_inv_def)
  note ch = pid_changed_iff [OF c v]
  from r obtain held where h: "slot_run 0 (trace s) = Some held"
      "held = 0 \<or> held = processHandle s" "held \<noteq> NtCurrentProcess"
    by (auto simp: run_inv_def slot_inv_def)
  have q: "(pid (tracked snap i s) 0 \<noteq> pid (tracked snap i s) 1) = pid_changed snap i s"
    using i by (simp add: pid_changed_def)
  have "slot_run 0 (trace (tracked snap i s)) = Some 0" if "pid_changed snap i s"
    using that i h by (auto simp: tracked_trace slot_run_append)
  then show ?thesis
    unfolding fresh_slot_def q using o i ch by (auto simp: tracked_trace)
qed

lemma open_run_inv:
  assumes n: "i < NumberOfHandles snap" and r: "run_inv snap s" and f: "fresh_slot snap i s"
  shows "run_inv snap (state_of (st_open w snap i s))"
proof (cases "pid s 0 \<noteq> pid s 1")
  case False
  then have "st_open w snap i s = Next s" by (simp add: st_open_def)
  with r show ?thesis by simp
next
  case True
  obtain st h where o: "PhOpenProcess w i (UniqueProcessId (Handles snap ! i))
                          (processHandle s) = (st, h)"
    by (cases "PhOpenProcess w i (UniqueProcessId (Handles snap ! i)) (processHandle s)") auto
  from f True have z: "slot_run 0 (trace s) = Some 0"
    and d: "UniqueProcessId (Handles snap ! i) \<noteq> prevpid snap i"
    and b: "\<forall>j \<in> set (open_indices (trace s)). j < i"
    by (simp_all add: fresh_slot_def)
  from r have s1: "sorted_wrt (<) (open_indices (trace s))"
    and s2: "list_all (run_start snap) (trace s)"
    by (simp_all add: run_inv_def)
  have a: "sorted_wrt (<) (open_indices (trace (state_of (st_open w snap i s))))"
    using True s1 b by (simp add: st_open_trace o sorted_wrt_append)
  have c: "list_all (run_start snap) (trace (state_of (st_open w snap i s)))"
    using True s2 n d by (simp add: st_open_trace o)
  have e: "slot_inv (state_of (st_open w snap i s))"
    using True z by (simp add: slot_inv_def st_open_trace st_open_handle o slot_run_append
                        self_not_null)
  show ?thesis
    unfolding run_inv_def using a c e by simp
qed

lemma open_pid_inv:
  assumes p: "pid_inv snap (Suc i) s" and f: "fresh_slot snap i s"
  shows "pid_inv snap (Suc i) (state_of (st_open w snap i s))"
  using assms
  by (auto simp: pid_inv_def fresh_slot_def st_open_trace split: prod.splits)

lemma report_run_inv: "run_inv snap s \<Longrightarrow> run_inv snap (state_of (st_report w n i s))"
  by (auto simp: run_inv_def slot_inv_def st_report_trace slot_run_append)

lemma report_pid_inv: "pid_inv snap j s \<Longrightarrow> pid_inv snap j (state_of (st_report w n i s))"
  by (auto simp: pid_inv_def st_report_trace)

lemma run_body:
  assumes p: "pid_inv snap i s" and r: "run_inv snap s"
  shows "run_inv snap (state_of (loop_body w n pm ig snap i s)) \<and>
         (is_Next (loop_body w n pm ig snap i s) \<or>
          is_Continue (loop_body w n pm ig snap i s) \<longrightarrow>
            pid_inv snap (Suc i) (state_of (loop_body w n pm ig snap i s)))"
proof -
  have c: "run_inv snap (closed s)" "pid_inv snap i (closed s)"
    using r p by (simp_all add: run_inv_closed pid_inv_closed)
  show ?thesis
  proof (cases "length (Handles snap) \<le> i")
    case True
    then show ?thesis by (simp add: loop_body_shape c)
  next
    case False
    then have i: "i < length (Handles snap)" by simp
    let ?t = "tracked snap i (closed s)"
    have t: "run_inv snap ?t" "pid_inv snap (Suc i) ?t" "fresh_slot snap i ?t"
      using i c by (simp_all add: tracked_run_inv tracked_pid_inv tracked_fresh_slot)
    show ?thesis
    proof (cases "CHECK_FOR_USER_CANCEL w i
                  \<or> UniqueProcessId (Handles snap ! i) = last_access_denied_pid ?t
                  \<or> NumberOfHandles snap \<le> i")
      case True
      then show ?thesis using False t by (auto simp: loop_body_shape)
    next
      case go: False
      then have n: "i < NumberOfHandles snap" by simp
      let ?P = "\<lambda>s. run_inv snap s \<and> pid_inv snap (Suc i) s"
      have "?P (state_of (st_open w snap i ?t))"
        using n t by (simp add: open_run_inv open_pid_inv)
      then have "?P (state_of (andthen (st_open w snap i ?t) (\<lambda>s.
           andthen (resolve w pm ig snap i s) (st_report w n i))))"
      proof (rule open_tail_rule)
        fix s s' assume "?P s" "kept s s'"
        then show "?P s'" by (auto intro: run_inv_kept pid_inv_kept)
      next
        fix s assume "?P s"
        then show "?P (state_of (st_report w n i s))"
          by (simp add: report_run_inv report_pid_inv)
      qed
      then show ?thesis using False go by (simp add: loop_body_shape)
    qed
  qed
qed

lemma run_loop:
  "pid_inv snap i s \<Longrightarrow> run_inv snap s \<Longrightarrow>
   run_inv snap (ending_state (search_loop w n pm ig snap i s))"
  by (rule search_loop_rule [where Aux = "pid_inv snap" and Tr = "run_inv snap"])
     (simp_all add: run_body)

lemma run_entry:
  assumes "trace g = []" "at_entry g e"
  shows "pid_inv snap 0 e" "run_inv snap e"
proof -
  from assms obtain evs where e: "trace e = evs" "list_all quiet evs"
    and f: "pid e 0 = 0" "cur_pid e = 1" "processHandle e = 0"
    by (auto simp: at_entry_def)
  note a = aside_no_handle [OF quiet_aside [OF e(2)]]
  show "pid_inv snap 0 e"
    using e(1) f a [of snap 0] by (simp add: pid_inv_def prevpid_def)
  show "run_inv snap e"
    using e(1) f a [of snap 0] by (simp add: run_inv_def slot_inv_def self_not_null)
qed

lemma run_start_index:
  "list_all (run_start snap) tr \<Longrightarrow> j \<in> set (open_indices tr) \<Longrightarrow>
   UniqueProcessId (Handles snap ! j) \<noteq> prevpid snap j"
  by (induction tr rule: open_indices.induct) auto

lemma one_open_per_run:
  assumes s: "sorted_wrt (<) (open_indices tr)" and l: "list_all (run_start snap) tr"
    and run: "\<forall>j. a \<le> j \<and> j \<le> b \<longrightarrow>
               UniqueProcessId (Handles snap ! j) = UniqueProcessId (Handles snap ! a)"
  shows "length (filter (\<lambda>j. a \<le> j \<and> j \<le> b) (open_indices tr)) \<le> 1"
proof -
  let ?xs = "filter (\<lambda>j. a \<le> j \<and> j \<le> b) (open_indices tr)"
  have all_a: "j = a" if "j \<in> set ?xs" for j
  proof (rule ccontr)
    assume "j \<noteq> a"
    with that have j: "a < j" "j \<le> b" "j \<in> set (open_indices tr)" by auto
    have "a \<le> j - 1 \<and> j - 1 \<le> b" using j(1,2) by arith
    then have e1: "UniqueProcessId (Handles snap ! (j - 1)) =
                   UniqueProcessId (Handles snap ! a)"
      by (rule run [rule_format])
    have "a \<le> j \<and> j \<le> b" using j(1,2) by arith
    then have e2: "UniqueProcessId (Handles snap ! j) = UniqueProcessId (Handles snap ! a)"
      by (rule run [rule_format])
    have "j \<noteq> 0" using j(1) by arith
    then have "UniqueProcessId (Handles snap ! j) = prevpid snap j"
      using e1 e2 by (simp add: prevpid_def)
    with run_start_index [OF l j(3)] show False by simp
  qed
  have "distinct (open_indices tr)"
    using s strict_sorted_iff by blast
  then have "distinct ?xs" by simp
  then have "card (set ?xs) = length ?xs" by (rule distinct_card)
  moreover have "set ?xs \<subseteq> {a}" using all_a by auto
  then have "card (set ?xs) \<le> card {a}"
    by (intro card_mono) simp_all
  then have "card (set ?xs) \<le> 1" by simp
  ultimately show ?thesis by simp
qed

lemma three_capture:
  "map_option (\<lambda>(st, s). handles_mem s) (capture os_three boot) = Some snapshot_three"
  by code_simp

lemma allocated_append [simp]: "allocated (xs @ ys) = allocated xs @ allocated ys"
  by (induction xs rule: allocated.induct) auto

lemma requeried_allocations: "allocations (requeried w buf sz st s) = allocations s"
  by (simp add: requeried_def PhFree_def emit_def)

lemma PhAllocate_allocations:
  "allocations (snd (PhAllocate w b s)) =
     (if available w P_RtlAllocateHeap then Suc (allocations s) else allocations s)"
  by (simp add: PhAllocate_def emit_def Let_def)

lemma PhAllocate_result:
  "fst (PhAllocate w b s) =
     (if available w P_RtlAllocateHeap then RtlAllocateHeap w (allocations s) b else 0)"
  by (simp add: PhAllocate_def Let_def)

lemma doubling_last:
  "doubling w k m sz [Ev_NtQuerySystemInformation buf sz st, Ev_RtlFreeHeap buf] =
     (st = fst (NtQuerySystemInformation w k sz) \<and>
      (st = STATUS_INFO_LENGTH_MISMATCH \<and> sz * 2 \<le> PH_LARGE_BUFFER_SIZE w \<longrightarrow>
         \<not> available w P_RtlAllocateHeap))"
  by (auto simp: doubling_def)

lemma doubling_one:
  "doubling w k m sz [Ev_NtQuerySystemInformation buf sz st] =
     (st = fst (NtQuerySystemInformation w k sz) \<and>
      (st = STATUS_INFO_LENGTH_MISMATCH \<and> sz * 2 \<le> PH_LARGE_BUFFER_SIZE w \<longrightarrow>
         \<not> available w P_RtlAllocateHeap))"
  by (auto simp: doubling_def)

lemma doubling_nomem:
  "doubling w k m sz [Ev_NtQuerySystemInformation buf sz st, Ev_RtlFreeHeap buf,
                      Ev_RtlAllocateHeap (sz * 2) p] =
     (st = fst (NtQuerySystemInformation w k sz) \<and> p = RtlAllocateHeap w m (sz * 2) \<and>
      (st = STATUS_INFO_LENGTH_MISMATCH \<and> sz * 2 \<le> PH_LARGE_BUFFER_SIZE w \<and>
       available w P_RtlAllocateHeap \<longrightarrow> p = 0))"
  by (auto simp: doubling_def)

lemma doubling_step:
  assumes d: "doubling w (Suc k) (Suc m) (sz * 2) evs" and q: "sysqueries evs \<noteq> []"
    and st: "fst (NtQuerySystemInformation w k sz) = STATUS_INFO_LENGTH_MISMATCH"
    and under: "sz * 2 \<le> PH_LARGE_BUFFER_SIZE w"
  shows "doubling w k m sz
           ([Ev_NtQuerySystemInformation buf sz STATUS_INFO_LENGTH_MISMATCH, Ev_RtlFreeHeap buf,
             Ev_RtlAllocateHeap (sz * 2) (RtlAllocateHeap w m (sz * 2))] @ evs)"
proof -
  let ?qs = "sysqueries evs" and ?as = "allocated evs"
  from d have
    d1: "\<forall>j < length ?qs. ?qs ! j =
           (sz * 2 * 2 ^ j, fst (NtQuerySystemInformation w (Suc k + j) (sz * 2 * 2 ^ j)))"
    and d2: "\<forall>j < length ?as. ?as ! j =
           (sz * 2 * 2 ^ Suc j, RtlAllocateHeap w (Suc m + j) (sz * 2 * 2 ^ Suc j))"
    and d3: "\<forall>q \<in> set (butlast ?qs).
         snd q = STATUS_INFO_LENGTH_MISMATCH \<and> fst q * 2 \<le> PH_LARGE_BUFFER_SIZE w"
    and d4: "?qs \<noteq> [] \<and> snd (last ?qs) = STATUS_INFO_LENGTH_MISMATCH \<and>
       fst (last ?qs) * 2 \<le> PH_LARGE_BUFFER_SIZE w \<and> available w P_RtlAllocateHeap \<longrightarrow>
         length ?as = length ?qs \<and> snd (last ?as) = 0"
    by (simp_all add: doubling_def)
  have a: "\<forall>j < Suc (length ?qs). ((sz, STATUS_INFO_LENGTH_MISMATCH) # ?qs) ! j =
           (sz * 2 ^ j, fst (NtQuerySystemInformation w (k + j) (sz * 2 ^ j)))"
  proof (intro allI impI)
    fix j assume j: "j < Suc (length ?qs)"
    show "((sz, STATUS_INFO_LENGTH_MISMATCH) # ?qs) ! j =
           (sz * 2 ^ j, fst (NtQuerySystemInformation w (k + j) (sz * 2 ^ j)))"
    proof (cases j)
      case 0
      then show ?thesis by (simp add: st)
    next
      case (Suc j')
      with j have "j' < length ?qs" by simp
      with d1 have "?qs ! j' =
           (sz * 2 * 2 ^ j', fst (NtQuerySystemInformation w (Suc k + j') (sz * 2 * 2 ^ j')))"
        by blast
      then show ?thesis by (simp add: Suc mult.assoc)
    qed
  qed
  have b: "\<forall>j < Suc (length ?as). ((sz * 2, RtlAllocateHeap w m (sz * 2)) # ?as) ! j =
           (sz * 2 ^ Suc j, RtlAllocateHeap w (m + j) (sz * 2 ^ Suc j))"
  proof (intro allI impI)
    fix j assume j: "j < Suc (length ?as)"
    show "((sz * 2, RtlAllocateHeap w m (sz * 2)) # ?as) ! j =
           (sz * 2 ^ Suc j, RtlAllocateHeap w (m + j) (sz * 2 ^ Suc j))"
    proof (cases j)
      case 0
      then show ?thesis by simp
    next
      case (Suc j')
      with j have "j' < length ?as" by simp
      with d2 have "?as ! j' =
           (sz * 2 * 2 ^ Suc j', RtlAllocateHeap w (Suc m + j') (sz * 2 * 2 ^ Suc j'))"
        by blast
      then show ?thesis by (simp add: Suc mult.assoc)
    qed
  qed
  have c: "\<forall>q \<in> set (butlast ((sz, STATUS_INFO_LENGTH_MISMATCH) # ?qs)).
         snd q = STATUS_INFO_LENGTH_MISMATCH \<and> fst q * 2 \<le> PH_LARGE_BUFFER_SIZE w"
    using d3 q under by simp
  have e: "snd (last ((sz, STATUS_INFO_LENGTH_MISMATCH) # ?qs)) = STATUS_INFO_LENGTH_MISMATCH \<and>
       fst (last ((sz, STATUS_INFO_LENGTH_MISMATCH) # ?qs)) * 2 \<le> PH_LARGE_BUFFER_SIZE w \<and>
       available w P_RtlAllocateHeap \<longrightarrow>
         length ((sz * 2, RtlAllocateHeap w m (sz * 2)) # ?as) =
           length ((sz, STATUS_INFO_LENGTH_MISMATCH) # ?qs) \<and>
         snd (last ((sz * 2, RtlAllocateHeap w m (sz * 2)) # ?as)) = 0"
  proof (intro impI, elim conjE)
    assume "snd (last ((sz, STATUS_INFO_LENGTH_MISMATCH) # ?qs)) = STATUS_INFO_LENGTH_MISMATCH"
      "fst (last ((sz, STATUS_INFO_LENGTH_MISMATCH) # ?qs)) * 2 \<le> PH_LARGE_BUFFER_SIZE w"
      "available w P_RtlAllocateHeap"
    then have "length ?as = length ?qs \<and> snd (last ?as) = 0"
      using d4 q by simp
    moreover from this q have "?as \<noteq> []" by auto
    ultimately show "length ((sz * 2, RtlAllocateHeap w m (sz * 2)) # ?as) =
           length ((sz, STATUS_INFO_LENGTH_MISMATCH) # ?qs) \<and>
         snd (last ((sz * 2, RtlAllocateHeap w m (sz * 2)) # ?as)) = 0"
      by simp
  qed
  show ?thesis
    unfolding doubling_def using a b c e by simp
qed

lemma enum_loop_doubling:
  assumes ceiling: "PH_LARGE_BUFFER_SIZE w < 0x80000000"
    and free: "available w P_RtlFreeHeap"
  shows "sz \<noteq> 0 \<Longrightarrow> sz < 0x80000000 \<Longrightarrow>
    \<exists>st s' evs. PhEnumHandlesEx_loop w k buf sz s = Some (st, s')
       \<and> trace s' = trace s @ evs \<and> sysqueries evs \<noteq> []
       \<and> doubling w k (allocations s) sz evs"
proof (induction "2 ^ 31 - unat sz" arbitrary: k buf sz s rule: less_induct)
  case less
  obtain st mem where q: "NtQuerySystemInformation w k sz = (st, mem)"
    by (cases "NtQuerySystemInformation w k sz") auto
  then have fq: "fst (NtQuerySystemInformation w k sz) = st" by simp
  let ?s2 = "requeried w buf sz st s"
  let ?a = "PhAllocate w (sz * 2) ?s2"
  note step = enum_step [OF q, of buf s]
  show ?case
  proof (cases "st = STATUS_INFO_LENGTH_MISMATCH")
    case False
    then show ?thesis
      unfolding step
      by (simp add: requeried_trace [OF free] emit_def doubling_last doubling_one fq)
  next
    case True
    show ?thesis
    proof (cases "PH_LARGE_BUFFER_SIZE w < sz * 2")
      case over: True
      then have no: "\<not> sz * 2 \<le> PH_LARGE_BUFFER_SIZE w" by simp
      show ?thesis
        unfolding step using True over no
        by (simp add: requeried_trace [OF free] doubling_last fq)
    next
      case under: False
      show ?thesis
      proof (cases "fst ?a = 0")
        case nomem: True
        have r: "PhEnumHandlesEx_loop w k buf sz s = Some (STATUS_NO_MEMORY, snd ?a)"
          unfolding step using True under nomem by simp
        show ?thesis
        proof (cases "available w P_RtlAllocateHeap")
          case av: True
          have z: "RtlAllocateHeap w (allocations s) (sz * 2) = 0"
            using nomem av by (simp add: PhAllocate_result requeried_allocations)
          have t: "trace (snd ?a) = trace s @
              [Ev_NtQuerySystemInformation buf sz st, Ev_RtlFreeHeap buf,
               Ev_RtlAllocateHeap (sz * 2) 0]"
            using av z
            by (simp add: PhAllocate_trace requeried_trace [OF free] requeried_allocations)
          show ?thesis
            unfolding r using t z by (simp add: doubling_nomem fq)
        next
          case nav: False
          have t: "trace (snd ?a) = trace s @
              [Ev_NtQuerySystemInformation buf sz st, Ev_RtlFreeHeap buf]"
            using nav by (simp add: PhAllocate_trace requeried_trace [OF free])
          show ?thesis
            unfolding r using t nav by (simp add: doubling_last fq)
        qed
      next
        case again: False
        have u: "PhEnumHandlesEx_loop w k buf sz s =
            PhEnumHandlesEx_loop w (Suc k) (fst ?a) (sz * 2) (snd ?a)"
          unfolding step using True under again by simp
        have d: "unat (sz * 2) = 2 * unat sz"
          using less.prems(2) by (rule double_unat)
        have pos: "0 < unat sz"
          using less.prems(1) by (simp add: unat_gt_0)
        have le: "sz * 2 \<le> PH_LARGE_BUFFER_SIZE w"
          using under by simp
        have lt2: "sz * 2 < 0x80000000"
          using le ceiling by (rule le_less_trans)
        have nz2: "sz * 2 \<noteq> 0"
          using d pos by (metis mult_is_0 not_less_zero unat_0 zero_neq_numeral)
        have "unat (sz * 2) < 2 ^ 31"
          using lt2 by (simp add: word_less_nat_alt)
        then have m: "2 ^ 31 - unat (sz * 2) < 2 ^ 31 - unat sz"
          using d pos by simp
        have av: "available w P_RtlAllocateHeap"
          using again by (auto simp: PhAllocate_def split: if_splits)
        have al: "allocations (snd ?a) = Suc (allocations s)"
          using av by (simp add: PhAllocate_allocations requeried_allocations)
        from less.hyps [OF m nz2 lt2, of "Suc k" "fst ?a" "snd ?a"]
        obtain st' s' evs where r:
          "PhEnumHandlesEx_loop w (Suc k) (fst ?a) (sz * 2) (snd ?a) = Some (st', s')"
          "trace s' = trace (snd ?a) @ evs" "sysqueries evs \<noteq> []"
          "doubling w (Suc k) (Suc (allocations s)) (sz * 2) evs"
          unfolding al by blast
        have t: "trace s' = trace s @
            ([Ev_NtQuerySystemInformation buf sz STATUS_INFO_LENGTH_MISMATCH, Ev_RtlFreeHeap buf,
              Ev_RtlAllocateHeap (sz * 2) (RtlAllocateHeap w (allocations s) (sz * 2))]
             @ evs)"
          using r(2) av True
          by (simp add: PhAllocate_trace requeried_trace [OF free] requeried_allocations)
        have fm: "fst (NtQuerySystemInformation w k sz) = STATUS_INFO_LENGTH_MISMATCH"
          using fq True by simp
        note D = doubling_step [OF r(4) r(3) fm le, of buf]
        show ?thesis
          unfolding u r(1)
          apply (intro exI conjI)
             apply (rule refl)
            apply (rule t)
           apply (simp add: r(3))
          apply (rule D)
          done
      qed
    qed
  qed
qed

lemma doubled_empty: "doubled w m b []"
  by (simp add: doubled_def)

lemma doubled_nomem: "doubled w m b [Ev_RtlAllocateHeap b (RtlAllocateHeap w m b)]"
  by (simp add: doubled_def)

lemma doubling_doubled:
  assumes d: "doubling w 0 (Suc m) b evs" and av: "available w P_RtlAllocateHeap"
  shows "doubled w m b (Ev_RtlAllocateHeap b (RtlAllocateHeap w m b) # evs)"
proof -
  let ?qs = "sysqueries evs" and ?as = "allocated evs"
  from d have
    d1: "\<forall>j < length ?qs. ?qs ! j =
           (b * 2 ^ j, fst (NtQuerySystemInformation w j (b * 2 ^ j)))"
    and d2: "\<forall>j < length ?as. ?as ! j =
           (b * 2 ^ Suc j, RtlAllocateHeap w (Suc m + j) (b * 2 ^ Suc j))"
    and d3: "\<forall>q \<in> set (butlast ?qs).
         snd q = STATUS_INFO_LENGTH_MISMATCH \<and> fst q * 2 \<le> PH_LARGE_BUFFER_SIZE w"
    and d4: "?qs \<noteq> [] \<and> snd (last ?qs) = STATUS_INFO_LENGTH_MISMATCH \<and>
       fst (last ?qs) * 2 \<le> PH_LARGE_BUFFER_SIZE w \<and> available w P_RtlAllocateHeap \<longrightarrow>
         length ?as = length ?qs \<and> snd (last ?as) = 0"
    by (simp_all add: doubling_def)
  have b: "\<forall>j < Suc (length ?as). ((b, RtlAllocateHeap w m b) # ?as) ! j =
           (b * 2 ^ j, RtlAllocateHeap w (m + j) (b * 2 ^ j))"
  proof (intro allI impI)
    fix j assume j: "j < Suc (length ?as)"
    show "((b, RtlAllocateHeap w m b) # ?as) ! j =
           (b * 2 ^ j, RtlAllocateHeap w (m + j) (b * 2 ^ j))"
    proof (cases j)
      case 0
      then show ?thesis by simp
    next
      case (Suc j')
      with j have "j' < length ?as" by simp
      with d2 have "?as ! j' =
           (b * 2 ^ Suc j', RtlAllocateHeap w (Suc m + j') (b * 2 ^ Suc j'))"
        by blast
      then show ?thesis by (simp add: Suc)
    qed
  qed
  have e: "?qs \<noteq> [] \<and> snd (last ?qs) = STATUS_INFO_LENGTH_MISMATCH \<and>
       fst (last ?qs) * 2 \<le> PH_LARGE_BUFFER_SIZE w \<longrightarrow>
         length ((b, RtlAllocateHeap w m b) # ?as) = Suc (length ?qs) \<and>
         snd (last ((b, RtlAllocateHeap w m b) # ?as)) = 0"
  proof (intro impI, elim conjE)
    assume q: "?qs \<noteq> []" and "snd (last ?qs) = STATUS_INFO_LENGTH_MISMATCH"
      "fst (last ?qs) * 2 \<le> PH_LARGE_BUFFER_SIZE w"
    then have "length ?as = length ?qs \<and> snd (last ?as) = 0"
      using d4 av by simp
    moreover from this q have "?as \<noteq> []" by auto
    ultimately show "length ((b, RtlAllocateHeap w m b) # ?as) = Suc (length ?qs) \<and>
         snd (last ((b, RtlAllocateHeap w m b) # ?as)) = 0"
      by simp
  qed
  show ?thesis
    unfolding doubled_def using d1 b d3 e by simp
qed

lemma PhEnumHandlesEx_doubles:
  assumes ceiling: "PH_LARGE_BUFFER_SIZE w < 0x80000000"
    and free: "available w P_RtlFreeHeap"
    and nz: "initialBufferSize s \<noteq> 0" and small: "initialBufferSize s < 0x80000000"
  shows "\<exists>st s' evs. PhEnumHandlesEx w s = Some (st, s')
       \<and> trace s' = trace s @ evs
       \<and> doubled w (allocations s) (initialBufferSize s) evs
       \<and> (available w P_NtQuerySystemInformation \<and>
          fst (PhAllocate w (initialBufferSize s) s) \<noteq> 0 \<longrightarrow> sysqueries evs \<noteq> [])"
proof -
  let ?a = "PhAllocate w (initialBufferSize s) s"
  let ?b = "initialBufferSize s"
  consider
      (cap) "\<not> NT_SUCCESS (PF_INIT_OR_SET_STATUS w P_NtQuerySystemInformation STATUS_SUCCESS)"
    | (nomem) "NT_SUCCESS (PF_INIT_OR_SET_STATUS w P_NtQuerySystemInformation STATUS_SUCCESS)"
        "fst ?a = 0"
    | (loop) "NT_SUCCESS (PF_INIT_OR_SET_STATUS w P_NtQuerySystemInformation STATUS_SUCCESS)"
        "fst ?a \<noteq> 0"
    by blast
  then show ?thesis
  proof cases
    case cap
    then have "\<not> available w P_NtQuerySystemInformation"
      by (auto simp: PF_INIT_OR_SET_STATUS_def ntdefs split: if_splits)
    with cap show ?thesis by (simp add: PhEnumHandlesEx_unfold doubled_empty)
  next
    case nomem
    then have r: "PhEnumHandlesEx w s = Some (STATUS_NO_MEMORY, snd ?a)"
      by (simp add: PhEnumHandlesEx_unfold)
    have t: "trace (snd ?a) = trace s @
        (if available w P_RtlAllocateHeap
         then [Ev_RtlAllocateHeap ?b (RtlAllocateHeap w (allocations s) ?b)] else [])"
      by (rule PhAllocate_trace)
    show ?thesis
      unfolding r using t nomem(2) by (auto simp: doubled_empty doubled_nomem)
  next
    case loop
    then have u: "PhEnumHandlesEx w s =
        PhEnumHandlesEx_loop w 0 (fst ?a) ?b (snd ?a)"
      by (simp add: PhEnumHandlesEx_unfold)
    have av: "available w P_RtlAllocateHeap"
      using loop(2) by (auto simp: PhAllocate_def split: if_splits)
    have al: "allocations (snd ?a) = Suc (allocations s)"
      using av by (simp add: PhAllocate_allocations)
    from enum_loop_doubling [OF ceiling free nz small, of 0 "fst ?a" "snd ?a"]
    obtain st s' evs where r:
      "PhEnumHandlesEx_loop w 0 (fst ?a) ?b (snd ?a) = Some (st, s')"
      "trace s' = trace (snd ?a) @ evs" "sysqueries evs \<noteq> []"
      "doubling w 0 (Suc (allocations s)) ?b evs"
      unfolding al by blast
    have t: "trace s' = trace s @
        (Ev_RtlAllocateHeap ?b (RtlAllocateHeap w (allocations s) ?b) # evs)"
      using r(2) av by (simp add: PhAllocate_trace)
    note D = doubling_doubled [OF r(4) av]
    show ?thesis
      unfolding u r(1)
      apply (intro exI conjI)
         apply (rule refl)
        apply (rule t)
       apply (rule D)
      apply (simp add: r(3))
      done
  qed
qed

lemma reported_append [simp]: "reported (xs @ ys) = reported xs @ reported ys"
  by (induction xs rule: reported.induct) auto

lemma follows_no_calls:
  "queries ys = [] \<Longrightarrow> allocated ys = [] \<Longrightarrow> follows r ys"
  by (induction r ys rule: follows.induct) auto

lemma follows_append_tail:
  "follows r xs \<Longrightarrow> queries ys = [] \<Longrightarrow> allocated ys = [] \<Longrightarrow> follows r (xs @ ys)"
  by (induction r xs rule: follows.induct) (auto simp: follows_no_calls)

lemma query_loop_retries:
  "\<exists>evs. trace (query_loop w i a s) = trace s @ evs
     \<and> queries evs \<noteq> []
     \<and> (\<forall>st \<in> set (butlast (queries evs)). size_error st)
     \<and> (available w P_RtlAllocateHeap \<longrightarrow> map fst (allocated evs) = reported evs)"
proof (induction "unat (a - 1)" arbitrary: a s)
  case 0
  obtain st ret mem where q: "NtQueryObject w i a (dupHandle s) (bufferSize s) = (st, ret, mem)"
    by (cases "NtQueryObject w i a (dupHandle s) (bufferSize s)") auto
  from 0 have a1: "a - 1 = 0" by (simp add: unat_eq_0)
  have "query_loop w i a s = resized w st ret mem s \<and> size_error st \<or>
        query_loop w i a s = (emit (Ev_NtQueryObject (dupHandle s) (bufferSize s) st ret) s)
             \<lparr>status := st, buffer_mem := mem\<rparr> \<and> \<not> size_error st"
    by (cases "size_error st")
       (simp_all only: query_loop_unfold [OF q] a1 if_True if_False simp_thms)
  then show ?case
    by (auto simp: resized_trace emit_def)
next
  case (Suc n)
  obtain st ret mem where q: "NtQueryObject w i a (dupHandle s) (bufferSize s) = (st, ret, mem)"
    by (cases "NtQueryObject w i a (dupHandle s) (bufferSize s)") auto
  from Suc(2) have a1: "a - 1 \<noteq> 0" by auto
  have "unat (a - 1 - 1) = unat (a - 1) - 1"
    using a1 by (rule unat_minus_one)
  with Suc(2) have n: "n = unat (a - 1 - 1)"
    by (simp only: diff_Suc_1 flip: Suc(2))
  let ?s' = "resized w st ret mem s"
  have "query_loop w i a s = query_loop w i (a - 1) ?s' \<and> size_error st \<or>
        query_loop w i a s = (emit (Ev_NtQueryObject (dupHandle s) (bufferSize s) st ret) s)
             \<lparr>status := st, buffer_mem := mem\<rparr> \<and> \<not> size_error st"
    by (cases "size_error st")
       (simp_all only: query_loop_unfold [OF q] a1 if_True if_False simp_thms)
  then show ?case
  proof (elim disjE conjE)
    assume u: "query_loop w i a s = query_loop w i (a - 1) ?s'" and se: "size_error st"
    from Suc(1) [OF n, of ?s'] obtain evs where
      e: "trace (query_loop w i (a - 1) ?s') = trace ?s' @ evs" "queries evs \<noteq> []"
         "\<forall>st \<in> set (butlast (queries evs)). size_error st"
         "available w P_RtlAllocateHeap \<longrightarrow> map fst (allocated evs) = reported evs"
      by blast
    show ?thesis
      unfolding u
      apply (rule exI [of _ "drop (length (trace s)) (trace ?s') @ evs"])
      using e se
      apply (simp add: resized_trace)
      done
  next
    assume "query_loop w i a s = (emit (Ev_NtQueryObject (dupHandle s) (bufferSize s) st ret) s)
             \<lparr>status := st, buffer_mem := mem\<rparr>" and "\<not> size_error st"
    then show ?thesis by (simp add: emit_def)
  qed
qed

lemma body_after_query:
  assumes b: "before_query w ig snap i s0 = Next s"
  shows "\<exists>post. trace (state_of (loop_body w n pm ig snap i s0)) =
                  trace (query_loop w i 8 s) @ post
     \<and> queries post = [] \<and> allocated post = [] \<and> reported post = []"
proof -
  let ?s1 = "query_loop w i 8 s"
  have body: "loop_body w n pm ig snap i s0 =
        andthen (st_query w snap i s) (\<lambda>s. andthen (st_match pm s) (st_report w n i))"
    by (simp add: loop_body_by_query b)
  show ?thesis
  proof (cases "NT_SUCCESS (status ?s1)")
    case False
    then have "st_query w snap i s =
        Continue (emit (Ev_uuprintf (Dbg_query_failed (HandleValue (Handles snap ! i))
                           (UniqueProcessId (Handles snap ! i)) (status ?s1))) ?s1)"
      by (simp add: st_query_def Let_def)
    then show ?thesis
      by (simp add: body emit_def)
  next
    case True
    then have q: "st_query w snap i s = Next ?s1"
      by (simp add: st_query_def Let_def)
    have m: "st_match pm ?s1 = Fault ?s1 \<or> st_match pm ?s1 = Continue ?s1
             \<or> st_match pm ?s1 = Next ?s1"
      by (simp add: st_match_def)
    then show ?thesis
      by (elim disjE) (simp_all add: body q st_report_trace)
  qed
qed

lemma reported_length: "length (reported evs) = length (filter size_error (queries evs))"
  by (induction evs rule: reported.induct) auto

lemma twice_calls:
  "drop (length (trace (state_of (before_query os_twice True one_handle 0 at_loop_entry))))
     (trace (state_of (loop_body os_twice volume_file True True one_handle 0 at_loop_entry))) =
   [Ev_NtQueryObject 0x200 0x200 STATUS_BUFFER_TOO_SMALL 0x300,
    Ev_uuprintf (Dbg_realloc 0x200 0x300),
    Ev_RtlFreeHeap 0x20100000, Ev_RtlAllocateHeap 0x300 0x20200000,
    Ev_NtQueryObject 0x200 0x300 STATUS_BUFFER_TOO_SMALL 0x400,
    Ev_uuprintf (Dbg_realloc 0x300 0x400),
    Ev_RtlFreeHeap 0x20200000, Ev_RtlAllocateHeap 0x400 0x20300000,
    Ev_NtQueryObject 0x200 0x400 STATUS_SUCCESS 0x50,
    Ev_uprintf (Note_accessing volume_file),
    Ev_GetModuleFileNameExU 0x100 ''app.exe'', Ev_uprintf (Line_path ''app.exe'')]"
  by code_simp

lemma never_queries:
  "map_option (\<lambda>(st, s). (st, sysqueries (trace s))) (PhEnumHandlesEx os_never boot) =
     Some (STATUS_INSUFFICIENT_RESOURCES,
           map (\<lambda>b. (b, STATUS_INFO_LENGTH_MISMATCH))
             [0x10000, 0x20000, 0x40000, 0x80000, 0x100000, 0x200000, 0x400000, 0x800000,
              0x1000000, 0x2000000, 0x4000000, 0x8000000, 0x10000000])"
  by code_simp

lemma later_queries:
  "map_option (\<lambda>(st, s). (sysqueries (trace s), allocated (trace s)))
     (PhEnumHandlesEx os_later boot) =
     Some ([(0x10000, STATUS_INFO_LENGTH_MISMATCH), (0x20000, STATUS_INFO_LENGTH_MISMATCH),
            (0x40000, STATUS_SUCCESS)],
           [(0x10000, 0x20000000), (0x20000, 0x20100000), (0x40000, 0x20200000)])"
  by code_simp

section \<open>The claims that the code does not meet\<close>

text \<open>
  C1. Scenario 1 of the specification: the snapshot declares one handle, owned by
  process 1000 (not the caller), whose name is exactly
  \<^verbatim>\<open>\Device\HarddiskVolume3\file.txt\<close>; the target is the same string and partial
  matching is off. The claim says the call returns TRUE with the header and one path
  line. The code returns FALSE and prints only the summary: line 497 compares
  \<^verbatim>\<open>wHandleNameLen\<close>, a count of characters (32), with \<^verbatim>\<open>buffer->Name.Length\<close>, a count
  of bytes (64), so that an equal name never passes the exact test.
\<close>

theorem C1_exact_match_of_equal_name_fails:
  "observe (SearchProcess (os0 1 [entry 1000 0x40, entry 0xDEAD 0]) volume_file False False boot) =
     Some (Some False,
       setup_calls @
       [Ev_ReadHandleInfo 0, Ev_PhOpenProcess 0 1000 STATUS_SUCCESS 0x100,
        Ev_NtDuplicateObject 0x100 0x40 STATUS_SUCCESS, Ev_GetFileType 0x200,
        Ev_NtQueryObject 0x200 0x200 STATUS_SUCCESS 0x50, Ev_NtClose 0x200,
        Ev_ReadHandleInfo 1, Ev_NtClose 0x100,
        Ev_uprintf (Note_not_identified volume_file)] @
       cleanup_calls)"
  by code_simp

text \<open>
  C2. The claim says that on every exit path every still-open process handle is closed
  before the function returns. The code has no close at the label \<^verbatim>\<open>out\<close>; the process
  handle is closed only when a later record has another process id. In the first run
  the user cancels inside a run of records of process 1000: the handle \<open>0x100\<close> opened
  for it is never passed to \<^verbatim>\<open>NtClose\<close>. In the second run the loop completes, and the
  entry read behind the declared ones has the same process id: again \<open>0x100\<close> is never
  closed.
\<close>

theorem C2_process_handle_left_open:
  "observe (SearchProcess os_cancel volume_file True True boot) =
     Some (Some False,
       setup_calls @
       [Ev_ReadHandleInfo 0, Ev_PhOpenProcess 0 1000 STATUS_SUCCESS 0x100,
        Ev_NtDuplicateObject 0x100 0x40 STATUS_SUCCESS, Ev_GetFileType 0x200,
        Ev_NtClose 0x200, Ev_ReadHandleInfo 1,
        Ev_uprintf (Note_not_identified volume_file)] @
       cleanup_calls)
   \<and> observe (SearchProcess os_stale volume_file True True boot) =
     Some (Some False,
       setup_calls @
       [Ev_ReadHandleInfo 0, Ev_PhOpenProcess 0 1000 STATUS_SUCCESS 0x100,
        Ev_NtDuplicateObject 0x100 0x40 STATUS_SUCCESS, Ev_GetFileType 0x200,
        Ev_NtClose 0x200, Ev_ReadHandleInfo 1,
        Ev_NtDuplicateObject 0x100 0x44 STATUS_SUCCESS, Ev_GetFileType 0x200,
        Ev_NtClose 0x200, Ev_ReadHandleInfo 2,
        Ev_uprintf (Note_not_identified volume_file)] @
       cleanup_calls)"
  by code_simp

text \<open>
  C3. The claim says that the raw handle of a candidate of the caller's own process is
  never passed to \<^verbatim>\<open>NtClose\<close>. In this run with \<^verbatim>\<open>bIgnoreSelf = FALSE\<close> no duplication
  call is made for the caller's handle \<open>0x44\<close>, as the claim says, but the handle is
  closed two iterations later: the guard of line 410 tests \<^verbatim>\<open>processHandle\<close>, which
  line 430 has reset to null when the next record belonged to another process.
\<close>

theorem C3_own_handle_closed:
  "observe (SearchProcess os_self volume_file True False boot) =
     Some (Some True,
       setup_calls @
       [Ev_ReadHandleInfo 0, Ev_PhOpenProcess 0 4242 0 NtCurrentProcess,
        Ev_GetFileType 0x44, Ev_NtQueryObject 0x44 0x200 STATUS_SUCCESS 0x50,
        Ev_uprintf (Note_accessing volume_file),
        Ev_GetModuleFileNameExU NtCurrentProcess ''app.exe'',
        Ev_uprintf (Line_path ''app.exe''),
        Ev_ReadHandleInfo 1, Ev_PhOpenProcess 1 1000 STATUS_ACCESS_DENIED 0,
        Ev_uuprintf (Dbg_open_failed 1000 STATUS_ACCESS_DENIED),
        Ev_NtClose 0x44,
        Ev_ReadHandleInfo 2, Ev_uprintf Advice_close] @
       cleanup_calls)"
  by code_simp

text \<open>
  C4. The claim says that the entry at index \<^verbatim>\<open>NumberOfHandles\<close> is never read. The
  exit test of line 441 comes after the read of line 422: with one declared handle the
  code reads the entry at index 1, and when the memory ends with the declared entry
  that read is outside it.
\<close>

theorem C4_entry_behind_the_count_is_read:
  "observe (SearchProcess (os0 1 [entry 1000 0x40, entry 0xDEAD 0]) volume_file True True boot) =
     Some (Some True,
       setup_calls @
       [Ev_ReadHandleInfo 0, Ev_PhOpenProcess 0 1000 STATUS_SUCCESS 0x100,
        Ev_NtDuplicateObject 0x100 0x40 STATUS_SUCCESS, Ev_GetFileType 0x200,
        Ev_NtQueryObject 0x200 0x200 STATUS_SUCCESS 0x50,
        Ev_uprintf (Note_accessing volume_file),
        Ev_GetModuleFileNameExU 0x100 ''app.exe'', Ev_uprintf (Line_path ''app.exe''),
        Ev_NtClose 0x200, Ev_ReadHandleInfo 1, Ev_NtClose 0x100,
        Ev_uprintf Advice_close] @
       cleanup_calls)
   \<and> observe (SearchProcess (os0 1 [entry 1000 0x40]) volume_file True True boot) =
     Some (None,
       setup_calls @
       [Ev_ReadHandleInfo 0, Ev_PhOpenProcess 0 1000 STATUS_SUCCESS 0x100,
        Ev_NtDuplicateObject 0x100 0x40 STATUS_SUCCESS, Ev_GetFileType 0x200,
        Ev_NtQueryObject 0x200 0x200 STATUS_SUCCESS 0x50,
        Ev_uprintf (Note_accessing volume_file),
        Ev_GetModuleFileNameExU 0x100 ''app.exe'', Ev_uprintf (Line_path ''app.exe''),
        Ev_NtClose 0x200])"
  by code_simp

text \<open>
  C5. The claim says that the loop makes at most \<^verbatim>\<open>NumberOfHandles + 1\<close> iterations
  whatever the access-denied memo holds. The skip of line 437 comes before the exit
  test: with one declared handle and the memo at its initial value 0, the loop runs on
  for as long as the memory behind the declared entry reads as process id 0. Here it
  makes five iterations (reads of the entries 0 to 4) where the claim allows two.
\<close>

theorem C5_skip_postpones_the_exit:
  "observe (SearchProcess
      (os0 1 [entry 1000 0x40, entry 0 0, entry 0 0, entry 0 0, entry 0xDEAD 0])
      volume_file True True boot) =
     Some (Some True,
       setup_calls @
       [Ev_ReadHandleInfo 0, Ev_PhOpenProcess 0 1000 STATUS_SUCCESS 0x100,
        Ev_NtDuplicateObject 0x100 0x40 STATUS_SUCCESS, Ev_GetFileType 0x200,
        Ev_NtQueryObject 0x200 0x200 STATUS_SUCCESS 0x50,
        Ev_uprintf (Note_accessing volume_file),
        Ev_GetModuleFileNameExU 0x100 ''app.exe'', Ev_uprintf (Line_path ''app.exe''),
        Ev_NtClose 0x200, Ev_ReadHandleInfo 1, Ev_NtClose 0x100,
        Ev_ReadHandleInfo 2, Ev_ReadHandleInfo 3, Ev_ReadHandleInfo 4,
        Ev_uprintf Advice_close] @
       cleanup_calls)"
  by code_simp

section \<open>The claims that hold\<close>

text \<open>
  C6. Take a ceiling below \<open>2^31\<close> (so that doubling a size up to the ceiling does not
  wrap around in 32 bits), \<^verbatim>\<open>RtlFreeHeap\<close> bound, and an initial size that is not zero
  and below \<open>2^31\<close>. Then \<^verbatim>\<open>PhEnumHandlesEx\<close> returns, whatever the system answers, and
  the calls \<open>evs\<close> it made are these. A query is made when the entry point is bound and
  the first buffer was allocated. Query \<open>j\<close> is made with the initial size doubled \<open>j\<close>
  times, and its status is the reply of the system; allocation \<open>j\<close> is of the initial size
  doubled \<open>j\<close> times, and its result is the one of the system. Each
  \<^verbatim>\<open>STATUS_INFO_LENGTH_MISMATCH\<close> reply is followed by the release of the buffer
  (\<open>regrow\<close>). Every query but the last was answered with a mismatch whose doubled size
  is within the ceiling. The last query decides the result: a mismatch whose doubled
  size exceeds the ceiling gives \<^verbatim>\<open>STATUS_INSUFFICIENT_RESOURCES\<close>; a mismatch whose
  doubled size is within the ceiling is the last query only when the allocation of the
  doubled size, made after it, returned \<^verbatim>\<open>NULL\<close>, and the result is
  \<^verbatim>\<open>STATUS_NO_MEMORY\<close>, so a mismatch within the ceiling is always retried with twice the
  size when the buffer can be allocated; and a last reply other than a mismatch is the
  result. \<^verbatim>\<open>SearchProcess\<close> returns as well, and whenever the status after the capture
  step is unsuccessful it returns FALSE having printed the warning and the
  "not able to identify" summary only: no header, no path line.
\<close>

theorem C6_snapshot_growth_is_capped:
  assumes ceiling: "PH_LARGE_BUFFER_SIZE w < 0x80000000"
    and free: "available w P_RtlFreeHeap"
    and nz: "initialBufferSize g \<noteq> 0" and small: "initialBufferSize g < 0x80000000"
  shows "(\<exists>st s evs. PhEnumHandlesEx w g = Some (st, s)
            \<and> trace s = trace g @ evs \<and> regrow (initialBufferSize g) evs
            \<and> (available w P_NtQuerySystemInformation \<and>
               fst (PhAllocate w (initialBufferSize g) g) \<noteq> 0 \<longrightarrow> sysqueries evs \<noteq> [])
            \<and> (\<forall>j < length (sysqueries evs).
                  sysqueries evs ! j =
                    (initialBufferSize g * 2 ^ j,
                     fst (NtQuerySystemInformation w j (initialBufferSize g * 2 ^ j))))
            \<and> (\<forall>j < length (allocated evs).
                  allocated evs ! j =
                    (initialBufferSize g * 2 ^ j,
                     RtlAllocateHeap w (allocations g + j) (initialBufferSize g * 2 ^ j)))
            \<and> (\<forall>q \<in> set (butlast (sysqueries evs)).
                  snd q = STATUS_INFO_LENGTH_MISMATCH \<and> fst q * 2 \<le> PH_LARGE_BUFFER_SIZE w)
            \<and> (\<forall>b. sysqueries evs \<noteq> []
                   \<and> last (sysqueries evs) = (b, STATUS_INFO_LENGTH_MISMATCH)
                   \<and> PH_LARGE_BUFFER_SIZE w < b * 2
                   \<longrightarrow> st = STATUS_INSUFFICIENT_RESOURCES)
            \<and> (\<forall>b. sysqueries evs \<noteq> []
                   \<and> last (sysqueries evs) = (b, STATUS_INFO_LENGTH_MISMATCH)
                   \<and> b * 2 \<le> PH_LARGE_BUFFER_SIZE w
                   \<longrightarrow> st = STATUS_NO_MEMORY
                     \<and> length (allocated evs) = Suc (length (sysqueries evs))
                     \<and> snd (last (allocated evs)) = 0)
            \<and> (\<forall>b r. sysqueries evs \<noteq> [] \<and> last (sysqueries evs) = (b, r)
                   \<and> r \<noteq> STATUS_INFO_LENGTH_MISMATCH \<longrightarrow> st = r))
       \<and> (\<exists>r. SearchProcess w n pm ig g = Some r)
       \<and> (\<forall>st s. capture w g = Some (st, s) \<and> \<not> NT_SUCCESS st \<longrightarrow>
             (\<exists>s'. SearchProcess w n pm ig g = Some (Returned False s')
                 \<and> prints (trace s') =
                    prints (trace g) @ [Warn_enumerate st, Note_not_identified n]))"
proof (intro conjI)
  from PhEnumHandlesEx_returns [OF ceiling free nz small]
  obtain st s evs where r: "PhEnumHandlesEx w g = Some (st, s)"
      "trace s = trace g @ evs" "regrow (initialBufferSize g) evs"
      "sysqueries evs \<noteq> [] \<longrightarrow> st = verdict w (last (sysqueries evs))"
    by blast
  from PhEnumHandlesEx_doubles [OF ceiling free nz small]
  obtain st' s' evs' where r': "PhEnumHandlesEx w g = Some (st', s')"
      "trace s' = trace g @ evs'"
      "doubled w (allocations g) (initialBufferSize g) evs'"
      "available w P_NtQuerySystemInformation \<and>
          fst (PhAllocate w (initialBufferSize g) g) \<noteq> 0 \<longrightarrow> sysqueries evs' \<noteq> []"
    by blast
  from r(1) r'(1) have "s' = s" by simp
  with r(2) r'(2) have e: "evs' = evs" by simp
  let ?qs = "sysqueries evs" and ?as = "allocated evs"
  from r'(3) have
    d1: "\<forall>j < length ?qs. ?qs ! j =
           (initialBufferSize g * 2 ^ j,
            fst (NtQuerySystemInformation w j (initialBufferSize g * 2 ^ j)))"
    and d2: "\<forall>j < length ?as. ?as ! j =
           (initialBufferSize g * 2 ^ j,
            RtlAllocateHeap w (allocations g + j) (initialBufferSize g * 2 ^ j))"
    and d3: "\<forall>q \<in> set (butlast ?qs).
         snd q = STATUS_INFO_LENGTH_MISMATCH \<and> fst q * 2 \<le> PH_LARGE_BUFFER_SIZE w"
    and d4: "?qs \<noteq> [] \<and> snd (last ?qs) = STATUS_INFO_LENGTH_MISMATCH \<and>
       fst (last ?qs) * 2 \<le> PH_LARGE_BUFFER_SIZE w \<longrightarrow>
         length ?as = Suc (length ?qs) \<and> snd (last ?as) = 0"
    unfolding e doubled_def by blast+
  have v1: "\<forall>b. ?qs \<noteq> [] \<and> last ?qs = (b, STATUS_INFO_LENGTH_MISMATCH)
                   \<and> PH_LARGE_BUFFER_SIZE w < b * 2
                   \<longrightarrow> st = STATUS_INSUFFICIENT_RESOURCES"
    using r(4) by (auto simp: verdict_def)
  have v2: "\<forall>b. ?qs \<noteq> [] \<and> last ?qs = (b, STATUS_INFO_LENGTH_MISMATCH)
                   \<and> b * 2 \<le> PH_LARGE_BUFFER_SIZE w
                   \<longrightarrow> st = STATUS_NO_MEMORY
                     \<and> length ?as = Suc (length ?qs) \<and> snd (last ?as) = 0"
  proof (intro allI impI, elim conjE)
    fix b assume q: "?qs \<noteq> []" and l: "last ?qs = (b, STATUS_INFO_LENGTH_MISMATCH)"
      and u: "b * 2 \<le> PH_LARGE_BUFFER_SIZE w"
    then have "\<not> PH_LARGE_BUFFER_SIZE w < b * 2" by simp
    with r(4) q l have "st = STATUS_NO_MEMORY" by (simp add: verdict_def)
    moreover have "length ?as = Suc (length ?qs) \<and> snd (last ?as) = 0"
      using d4 q l u by simp
    ultimately show "st = STATUS_NO_MEMORY
                     \<and> length ?as = Suc (length ?qs) \<and> snd (last ?as) = 0"
      by simp
  qed
  have v3: "\<forall>b r. ?qs \<noteq> [] \<and> last ?qs = (b, r)
                   \<and> r \<noteq> STATUS_INFO_LENGTH_MISMATCH \<longrightarrow> st = r"
    using r(4) by (auto simp: verdict_def)
  have q0: "available w P_NtQuerySystemInformation \<and>
               fst (PhAllocate w (initialBufferSize g) g) \<noteq> 0 \<longrightarrow> ?qs \<noteq> []"
    using r'(4) unfolding e .
  show "\<exists>st s evs. PhEnumHandlesEx w g = Some (st, s)
            \<and> trace s = trace g @ evs \<and> regrow (initialBufferSize g) evs
            \<and> (available w P_NtQuerySystemInformation \<and>
               fst (PhAllocate w (initialBufferSize g) g) \<noteq> 0 \<longrightarrow> sysqueries evs \<noteq> [])
            \<and> (\<forall>j < length (sysqueries evs).
                  sysqueries evs ! j =
                    (initialBufferSize g * 2 ^ j,
                     fst (NtQuerySystemInformation w j (initialBufferSize g * 2 ^ j))))
            \<and> (\<forall>j < length (allocated evs).
                  allocated evs ! j =
                    (initialBufferSize g * 2 ^ j,
                     RtlAllocateHeap w (allocations g + j) (initialBufferSize g * 2 ^ j)))
            \<and> (\<forall>q \<in> set (butlast (sysqueries evs)).
                  snd q = STATUS_INFO_LENGTH_MISMATCH \<and> fst q * 2 \<le> PH_LARGE_BUFFER_SIZE w)
            \<and> (\<forall>b. sysqueries evs \<noteq> []
                   \<and> last (sysqueries evs) = (b, STATUS_INFO_LENGTH_MISMATCH)
                   \<and> PH_LARGE_BUFFER_SIZE w < b * 2
                   \<longrightarrow> st = STATUS_INSUFFICIENT_RESOURCES)
            \<and> (\<forall>b. sysqueries evs \<noteq> []
                   \<and> last (sysqueries evs) = (b, STATUS_INFO_LENGTH_MISMATCH)
                   \<and> b * 2 \<le> PH_LARGE_BUFFER_SIZE w
                   \<longrightarrow> st = STATUS_NO_MEMORY
                     \<and> length (allocated evs) = Suc (length (sysqueries evs))
                     \<and> snd (last (allocated evs)) = 0)
            \<and> (\<forall>b r. sysqueries evs \<noteq> [] \<and> last (sysqueries evs) = (b, r)
                   \<and> r \<noteq> STATUS_INFO_LENGTH_MISMATCH \<longrightarrow> st = r)"
    apply (rule exI [of _ st], rule exI [of _ s], rule exI [of _ evs])
    apply (intro conjI)
             apply (rule r(1))
            apply (rule r(2))
           apply (rule r(3))
          apply (rule q0)
         apply (rule d1)
        apply (rule d2)
       apply (rule d3)
      apply (rule v1)
     apply (rule v2)
    apply (rule v3)
    done
next
  let ?s1 = "snd (before_capture w g)"
  have "\<exists>y. PhEnumHandlesEx w ?s1 = Some y"
    using PhEnumHandlesEx_returns [OF ceiling free, of ?s1] nz small
    by (auto simp: before_capture_size)
  then have "\<exists>y. capture w g = Some y"
    by (auto simp: capture_def split: prod.splits)
  then show "\<exists>r. SearchProcess w n pm ig g = Some r"
    by (auto simp: SearchProcess_by_capture split: ending.splits)
next
  show "\<forall>st s. capture w g = Some (st, s) \<and> \<not> NT_SUCCESS st \<longrightarrow>
             (\<exists>s'. SearchProcess w n pm ig g = Some (Returned False s')
                 \<and> prints (trace s') =
                    prints (trace g) @ [Warn_enumerate st, Note_not_identified n])"
  proof (intro allI impI, elim conjE)
    fix st s
    assume c: "capture w g = Some (st, s)" and f: "\<not> NT_SUCCESS st"
    from capture_kept [OF c] obtain evs where
      k: "bFound s = False" "trace s = trace g @ evs" "list_all quiet evs"
      by (auto simp: kept_def locals_def)
    let ?s = "emit (Ev_uprintf (Warn_enumerate st)) (s\<lparr>status := st\<rparr>)"
    have sp: "SearchProcess w n pm ig g = Some (returned (out w n ?s))"
      using c f by (simp add: SearchProcess_by_capture)
    have b: "bFound ?s = False"
      using k(1) by (simp add: emit_def)
    have p: "prints (trace ?s) = prints (trace g) @ [Warn_enumerate st]"
      using k(2,3) by (simp add: emit_def prints_quiet)
    show "\<exists>s'. SearchProcess w n pm ig g = Some (Returned False s')
                 \<and> prints (trace s') =
                    prints (trace g) @ [Warn_enumerate st, Note_not_identified n]"
      unfolding sp returned_def
      using out_result [of w n ?s] out_prints [of w n ?s] b p by simp
  qed
qed

text \<open>
  The theorem at two systems. The first answers every query with
  \<^verbatim>\<open>STATUS_INFO_LENGTH_MISMATCH\<close>: thirteen queries are made, with 0x10000 to 0x10000000
  bytes, the capture ends with \<^verbatim>\<open>STATUS_INSUFFICIENT_RESOURCES\<close> and the search reports
  no match. The second answers two queries with a mismatch and the third with success:
  three buffers are allocated, of 0x10000, 0x20000 and 0x40000 bytes, and the result is
  \<^verbatim>\<open>STATUS_SUCCESS\<close>.
\<close>

theorem C6_snapshot_growth_witness:
  "PH_LARGE_BUFFER_SIZE os_never < 0x80000000 \<and> available os_never P_RtlFreeHeap
   \<and> PH_LARGE_BUFFER_SIZE os_later < 0x80000000 \<and> available os_later P_RtlFreeHeap
   \<and> initialBufferSize boot \<noteq> 0 \<and> initialBufferSize boot < 0x80000000
   \<and> map_option (\<lambda>(st, s). (st, sysqueries (trace s))) (PhEnumHandlesEx os_never boot) =
       Some (STATUS_INSUFFICIENT_RESOURCES,
             map (\<lambda>b. (b, STATUS_INFO_LENGTH_MISMATCH))
               [0x10000, 0x20000, 0x40000, 0x80000, 0x100000, 0x200000, 0x400000, 0x800000,
                0x1000000, 0x2000000, 0x4000000, 0x8000000, 0x10000000])
   \<and> map_option fst (capture os_never boot) = Some STATUS_INSUFFICIENT_RESOURCES
   \<and> \<not> NT_SUCCESS STATUS_INSUFFICIENT_RESOURCES
   \<and> (\<exists>s'. SearchProcess os_never volume_file False False boot = Some (Returned False s')
         \<and> prints (trace s') =
            [Warn_enumerate STATUS_INSUFFICIENT_RESOURCES, Note_not_identified volume_file])
   \<and> map_option (\<lambda>(st, s). (sysqueries (trace s), allocated (trace s)))
        (PhEnumHandlesEx os_later boot) =
       Some ([(0x10000, STATUS_INFO_LENGTH_MISMATCH), (0x20000, STATUS_INFO_LENGTH_MISMATCH),
              (0x40000, STATUS_SUCCESS)],
             [(0x10000, 0x20000000), (0x20000, 0x20100000), (0x40000, 0x20200000)])
   \<and> map_option fst (PhEnumHandlesEx os_later boot) = Some STATUS_SUCCESS"
proof -
  have h1: "PH_LARGE_BUFFER_SIZE os_never < 0x80000000"
    by (simp add: os_never_def os0_def)
  have h2: "available os_never P_RtlFreeHeap"
    by (simp add: os_never_def os0_def)
  have k1: "PH_LARGE_BUFFER_SIZE os_later < 0x80000000"
    by (simp add: os_later_def os0_def)
  have k2: "available os_later P_RtlFreeHeap"
    by (simp add: os_later_def os0_def)
  have h3: "initialBufferSize boot \<noteq> 0" and h4: "initialBufferSize boot < 0x80000000"
    by (simp_all add: boot_def)
  have c: "map_option fst (capture os_never boot) = Some STATUS_INSUFFICIENT_RESOURCES"
    by code_simp
  then obtain s where cs: "capture os_never boot = Some (STATUS_INSUFFICIENT_RESOURCES, s)"
    by (cases "capture os_never boot") auto
  have f: "\<not> NT_SUCCESS STATUS_INSUFFICIENT_RESOURCES"
    by (simp add: ntdefs)
  note T = C6_snapshot_growth_is_capped
             [OF h1 h2 h3 h4, where n = volume_file and pm = False and ig = False]
  note F = T [THEN conjunct2, THEN conjunct2, rule_format, OF conjI [OF cs f]]
  have p: "\<exists>s'. SearchProcess os_never volume_file False False boot
           = Some (Returned False s')
         \<and> prints (trace s') =
            [Warn_enumerate STATUS_INSUFFICIENT_RESOURCES, Note_not_identified volume_file]"
    using F by (simp add: boot_def)
  note L = C6_snapshot_growth_is_capped
             [OF k1 k2 h3 h4, where n = volume_file and pm = False and ig = False,
              THEN conjunct1]
  have l: "map_option fst (PhEnumHandlesEx os_later boot) = Some STATUS_SUCCESS"
  proof -
    from L obtain st s evs where a: "PhEnumHandlesEx os_later boot = Some (st, s)"
      and b: "trace s = trace boot @ evs"
      and v: "\<forall>b r. sysqueries evs \<noteq> [] \<and> last (sysqueries evs) = (b, r)
                   \<and> r \<noteq> STATUS_INFO_LENGTH_MISMATCH \<longrightarrow> st = r"
      by (elim exE conjE)
    from b have e: "evs = trace s" by (simp add: boot_def)
    from later_queries a have
      q: "sysqueries evs =
            [(0x10000, STATUS_INFO_LENGTH_MISMATCH), (0x20000, STATUS_INFO_LENGTH_MISMATCH),
             (0x40000, STATUS_SUCCESS)]"
      by (simp add: e)
    have "sysqueries evs \<noteq> [] \<and> last (sysqueries evs) = (0x40000, STATUS_SUCCESS)
           \<and> STATUS_SUCCESS \<noteq> STATUS_INFO_LENGTH_MISMATCH"
      unfolding q by (simp add: ntdefs)
    with v have "st = STATUS_SUCCESS" by blast
    with a show ?thesis by simp
  qed
  show ?thesis
    by (intro conjI h1 h2 k1 k2 h3 h4 never_queries c f p later_queries l)
qed

text \<open>
  C7. In the iteration for record \<open>i\<close>, let \<open>s\<close> be the state in which the name query is
  reached (the stages before it fall through) and \<open>evs\<close> the calls of the iteration from
  there on. They contain between one and eight \<^verbatim>\<open>NtQueryObject\<close> calls, one more than
  the number of size errors until the bound of eight is reached, and every reply but the
  last is a size error: a size error is retried as long as the bound permits. Every
  allocation is of exactly the size the system reported with the size error before it,
  the next query is made with that size, and with \<^verbatim>\<open>RtlAllocateHeap\<close> bound there is
  one allocation for each size error; every status is a reply of the system for this
  record. A size error is not a success, so a loop that exhausts the bound ends
  unsuccessful. Whenever the final status is unsuccessful the iteration ends in a
  \<^verbatim>\<open>continue\<close>: nothing is printed, \<^verbatim>\<open>bFound\<close> is unchanged, and the search goes on
  with record \<open>i + 1\<close>.
\<close>

theorem C7_name_query_is_bounded_and_local:
  "let s = state_of (before_query w ig snap i s0);
       body = loop_body w n pm ig snap i s0;
       evs = drop (length (trace s)) (trace (state_of body))
   in is_Next (before_query w ig snap i s0) \<longrightarrow>
      trace (state_of body) = trace s @ evs
    \<and> 1 \<le> length (queries evs) \<and> length (queries evs) \<le> 8
    \<and> length (queries evs) = min 8 (length (filter size_error (queries evs)) + 1)
    \<and> (\<forall>st \<in> set (butlast (queries evs)). size_error st)
    \<and> follows (Some (bufferSize s)) evs
    \<and> (available w P_RtlAllocateHeap \<longrightarrow> map fst (allocated evs) = reported evs)
    \<and> (\<forall>st \<in> set (queries evs). \<exists>a h b. st = fst (NtQueryObject w i a h b))
    \<and> (size_error (last (queries evs)) \<longrightarrow> \<not> NT_SUCCESS (last (queries evs)))
    \<and> (\<not> NT_SUCCESS (last (queries evs)) \<longrightarrow>
         is_Continue body
       \<and> bFound (state_of body) = bFound s
       \<and> prints (trace (state_of body)) = prints (trace s)
       \<and> search_loop w n pm ig snap i s0 = search_loop w n pm ig snap (Suc i) (state_of body))"
proof -
  define s where "s = state_of (before_query w ig snap i s0)"
  define s' where "s' = query_loop w i 8 s"
  define body where "body = loop_body w n pm ig snap i s0"
  define evs where "evs = drop (length (trace s)) (trace (state_of body))"
  have main: "trace (state_of body) = trace s @ evs
    \<and> 1 \<le> length (queries evs) \<and> length (queries evs) \<le> 8
    \<and> length (queries evs) = min 8 (length (filter size_error (queries evs)) + 1)
    \<and> (\<forall>st \<in> set (butlast (queries evs)). size_error st)
    \<and> follows (Some (bufferSize s)) evs
    \<and> (available w P_RtlAllocateHeap \<longrightarrow> map fst (allocated evs) = reported evs)
    \<and> (\<forall>st \<in> set (queries evs). \<exists>a h b. st = fst (NtQueryObject w i a h b))
    \<and> (size_error (last (queries evs)) \<longrightarrow> \<not> NT_SUCCESS (last (queries evs)))
    \<and> (\<not> NT_SUCCESS (last (queries evs)) \<longrightarrow>
         is_Continue body
       \<and> bFound (state_of body) = bFound s
       \<and> prints (trace (state_of body)) = prints (trace s)
       \<and> search_loop w n pm ig snap i s0 = search_loop w n pm ig snap (Suc i) (state_of body))"
    if nx: "is_Next (before_query w ig snap i s0)"
  proof -
    from nx have b: "before_query w ig snap i s0 = Next s"
      by (cases "before_query w ig snap i s0") (simp_all add: s_def)
    obtain es where es: "trace s' = trace s @ es" "follows (Some (bufferSize s)) es"
        "queries es \<noteq> []" "status s' = last (queries es)"
        "length (queries es) = min (unat ((8 :: ULONG) - 1) + 1)
            (length (filter size_error (queries es)) + 1)"
        "\<forall>st \<in> set (queries es). \<exists>a h b. st = fst (NtQueryObject w i a h b)"
      using query_loop_calls [of w i 8 s] unfolding s'_def by blast
    obtain es' where es': "trace s' = trace s @ es'"
        "\<forall>st \<in> set (butlast (queries es')). size_error st"
        "available w P_RtlAllocateHeap \<longrightarrow> map fst (allocated es') = reported es'"
      using query_loop_retries [of w i 8 s] unfolding s'_def by blast
    from es(1) es'(1) have same: "es' = es" by simp
    obtain post where post: "trace (state_of body) = trace s' @ post"
        "queries post = []" "allocated post = []" "reported post = []"
      using body_after_query [OF b, of n pm] unfolding s'_def body_def by blast
    have evs: "evs = es @ post"
      by (simp add: evs_def post(1) es(1))
    have q: "queries evs = queries es" "allocated evs = allocated es"
        "reported evs = reported es"
      by (simp_all add: evs post)
    have c1: "trace (state_of body) = trace s @ evs"
      by (simp add: evs post(1) es(1))
    have c2: "1 \<le> length (queries evs)"
      using es(3) by (cases "queries es") (simp_all add: q)
    have c4: "length (queries evs) = min 8 (length (filter size_error (queries evs)) + 1)"
      using es(5) by (simp add: q)
    then have c3: "length (queries evs) \<le> 8" by simp
    have c5: "\<forall>st \<in> set (butlast (queries evs)). size_error st"
      using es'(2) by (simp add: q same)
    have c6: "follows (Some (bufferSize s)) evs"
      unfolding evs using es(2) post(2,3) by (rule follows_append_tail)
    have c7: "available w P_RtlAllocateHeap \<longrightarrow> map fst (allocated evs) = reported evs"
      using es'(3) by (simp add: q same)
    have c8: "\<forall>st \<in> set (queries evs). \<exists>a h b. st = fst (NtQueryObject w i a h b)"
      using es(6) by (simp add: q)
    have c9: "size_error (last (queries evs)) \<longrightarrow> \<not> NT_SUCCESS (last (queries evs))"
      by (simp add: size_error_fails)
    have c10: "is_Continue body \<and> bFound (state_of body) = bFound s
       \<and> prints (trace (state_of body)) = prints (trace s)
       \<and> search_loop w n pm ig snap i s0 = search_loop w n pm ig snap (Suc i) (state_of body)"
      if fail: "\<not> NT_SUCCESS (last (queries evs))"
    proof -
      from fail have f: "\<not> NT_SUCCESS (status (query_loop w i 8 s))"
        using es(4) by (simp add: q s'_def)
      have sq: "st_query w snap i s =
          Continue (emit (Ev_uuprintf (Dbg_query_failed (HandleValue (Handles snap ! i))
                             (UniqueProcessId (Handles snap ! i)) (status s'))) s')"
        using f by (simp add: st_query_def Let_def s'_def)
      have bd: "body = Continue (emit (Ev_uuprintf (Dbg_query_failed (HandleValue (Handles snap ! i))
                             (UniqueProcessId (Handles snap ! i)) (status s'))) s')"
        by (simp add: body_def loop_body_by_query b sq)
      obtain qs where qs: "trace s' = trace s @ qs" "list_all quiet qs" "bFound s' = bFound s"
        using query_loop_quiet [of w i 8 s] unfolding s'_def by blast
      have "search_loop w n pm ig snap i s0 = search_loop w n pm ig snap (Suc i) (state_of body)"
        using bd unfolding body_def by (subst search_loop.simps) simp
      then show ?thesis
        using qs by (simp add: bd emit_def prints_quiet)
    qed
    show ?thesis
      using c1 c2 c3 c4 c5 c6 c7 c8 c9 c10 by blast
  qed
  show ?thesis
    unfolding Let_def
    unfolding s_def [symmetric] body_def [symmetric] evs_def [symmetric]
    using main by blast
qed

text \<open>
  The theorem at a system that answers every query of the one candidate with
  \<^verbatim>\<open>STATUS_BUFFER_TOO_SMALL\<close>: eight queries and eight allocations are made, the
  candidate is skipped and the loop goes on. And the calls of the iteration on a
  system that reports a size error twice: the buffer is reallocated with 0x300 and with
  0x400 bytes, the third query succeeds and the match is reported.
\<close>

theorem C7_name_query_witness:
  "is_Next (before_query os_grow True one_handle 0 at_loop_entry)
   \<and> available os_grow P_RtlAllocateHeap
   \<and> queries (drop (length (trace (state_of (before_query os_grow True one_handle 0 at_loop_entry))))
        (trace (state_of (loop_body os_grow volume_file True True one_handle 0 at_loop_entry))))
       = replicate 8 STATUS_BUFFER_TOO_SMALL
   \<and> length (allocated
        (drop (length (trace (state_of (before_query os_grow True one_handle 0 at_loop_entry))))
        (trace (state_of (loop_body os_grow volume_file True True one_handle 0 at_loop_entry)))))
       = 8
   \<and> is_Continue (loop_body os_grow volume_file True True one_handle 0 at_loop_entry)
   \<and> search_loop os_grow volume_file True True one_handle 0 at_loop_entry =
       search_loop os_grow volume_file True True one_handle (Suc 0)
         (state_of (loop_body os_grow volume_file True True one_handle 0 at_loop_entry))
   \<and> drop (length (trace (state_of (before_query os_twice True one_handle 0 at_loop_entry))))
        (trace (state_of (loop_body os_twice volume_file True True one_handle 0 at_loop_entry)))
       = [Ev_NtQueryObject 0x200 0x200 STATUS_BUFFER_TOO_SMALL 0x300,
          Ev_uuprintf (Dbg_realloc 0x200 0x300),
          Ev_RtlFreeHeap 0x20100000, Ev_RtlAllocateHeap 0x300 0x20200000,
          Ev_NtQueryObject 0x200 0x300 STATUS_BUFFER_TOO_SMALL 0x400,
          Ev_uuprintf (Dbg_realloc 0x300 0x400),
          Ev_RtlFreeHeap 0x20200000, Ev_RtlAllocateHeap 0x400 0x20300000,
          Ev_NtQueryObject 0x200 0x400 STATUS_SUCCESS 0x50,
          Ev_uprintf (Note_accessing volume_file),
          Ev_GetModuleFileNameExU 0x100 ''app.exe'', Ev_uprintf (Line_path ''app.exe'')]"
proof -
  let ?s = "state_of (before_query os_grow True one_handle 0 at_loop_entry)"
  let ?body = "loop_body os_grow volume_file True True one_handle 0 at_loop_entry"
  let ?evs = "drop (length (trace ?s)) (trace (state_of ?body))"
  have h1: "is_Next (before_query os_grow True one_handle 0 at_loop_entry)"
    by code_simp
  have av: "available os_grow P_RtlAllocateHeap"
    by (simp add: os_grow_def os0_def)
  note T = C7_name_query_is_bounded_and_local
         [where w = os_grow and i = 0 and ig = True and snap = one_handle
            and ?s0.0 = at_loop_entry and n = volume_file and pm = True,
          unfolded Let_def, THEN mp, OF h1]
  have reply: "fst (NtQueryObject os_grow i a h b) = STATUS_BUFFER_TOO_SMALL" for i a h b
    by (simp add: os_grow_def os0_def)
  have len: "length (queries ?evs) = min 8 (length (filter size_error (queries ?evs)) + 1)"
    using T by (elim conjE)
  have "\<forall>st \<in> set (queries ?evs). \<exists>a h b. st = fst (NtQueryObject os_grow 0 a h b)"
    using T by (elim conjE)
  then have all: "\<forall>st \<in> set (queries ?evs). st = STATUS_BUFFER_TOO_SMALL"
    by (simp add: reply)
  have h2: "queries ?evs = replicate 8 STATUS_BUFFER_TOO_SMALL"
    using len all by (rule all_size_errors_exhaust) (simp add: size_error_def)
  have "available os_grow P_RtlAllocateHeap \<longrightarrow> map fst (allocated ?evs) = reported ?evs"
    using T by (elim conjE)
  with av have "length (allocated ?evs) = length (reported ?evs)"
    by (metis length_map)
  also have "\<dots> = length (filter size_error (queries ?evs))"
    by (rule reported_length)
  also have "\<dots> = 8"
    unfolding h2 by (simp add: size_error_def)
  finally have h4: "length (allocated ?evs) = 8" .
  have h3: "\<not> NT_SUCCESS (last (queries ?evs))"
    unfolding h2 by (simp add: ntdefs)
  have imp: "\<not> NT_SUCCESS (last (queries ?evs)) \<longrightarrow>
        is_Continue ?body
      \<and> bFound (state_of ?body) = bFound ?s
      \<and> prints (trace (state_of ?body)) = prints (trace ?s)
      \<and> search_loop os_grow volume_file True True one_handle 0 at_loop_entry =
       search_loop os_grow volume_file True True one_handle (Suc 0) (state_of ?body)"
    using T by (elim conjE)
  note Q = mp [OF imp h3]
  have c1: "is_Continue ?body"
    using Q by (elim conjE)
  have c4: "search_loop os_grow volume_file True True one_handle 0 at_loop_entry =
       search_loop os_grow volume_file True True one_handle (Suc 0) (state_of ?body)"
    using Q by (elim conjE)
  show ?thesis
    by (intro conjI h1 av h2 h4 c1 c4 twice_calls)
qed

text \<open>
  C9. For a call that starts with an empty record of calls: walking the record of the
  whole call with the memo as the claim describes it (none at first, set to the process
  id at every open that fails with access-denied), no \<^verbatim>\<open>PhOpenProcess\<close> call is made
  for the process id the memo holds. In every iteration, an open that fails with
  \<^verbatim>\<open>STATUS_ACCESS_DENIED\<close> stores the process id of the record in the memo; and a record
  whose process id equals the memo is skipped: the iteration ends in a \<^verbatim>\<open>continue\<close>
  with no open attempt, the memo and \<^verbatim>\<open>bFound\<close> unchanged.
\<close>

theorem C9_access_denied_memo:
  assumes "trace g = []"
  shows "(\<forall>r. SearchProcess w n pm ig g = Some r \<longrightarrow> memo_respected 0 (trace (final r)))
     \<and> (pid s 0 \<noteq> pid s 1 \<and>
         fst (PhOpenProcess w i (UniqueProcessId (Handles snap ! i)) (processHandle s))
           = STATUS_ACCESS_DENIED \<longrightarrow>
         last_access_denied_pid (state_of (st_open w snap i s)) =
           UniqueProcessId (Handles snap ! i))
     \<and> (i < length (Handles snap) \<and> \<not> CHECK_FOR_USER_CANCEL w i \<and>
         UniqueProcessId (Handles snap ! i) = last_access_denied_pid s \<longrightarrow>
         is_Continue (loop_body w n pm ig snap i s)
         \<and> filter is_open (drop (length (trace s))
               (trace (state_of (loop_body w n pm ig snap i s)))) = []
         \<and> last_access_denied_pid (state_of (loop_body w n pm ig snap i s)) =
             last_access_denied_pid s
         \<and> bFound (state_of (loop_body w n pm ig snap i s)) = bFound s)"
proof (intro conjI allI impI)
  fix r
  assume run: "SearchProcess w n pm ig g = Some r"
  from SearchProcess_trace [OF run] show "memo_respected 0 (trace (final r))"
  proof
    assume "\<exists>evs. trace (final r) = trace g @ evs \<and> list_all aside evs"
    then show ?thesis
      using assms by (auto dest!: aside_not_open memo_no_open)
  next
    assume "\<exists>st s post. capture w g = Some (st, s) \<and> list_all aside post
            \<and> trace (final r) =
                trace (ending_state (search_loop w n pm ig (handles_mem s) 0
                                       (loop_entry w n (s\<lparr>status := st\<rparr>)))) @ post"
    then obtain st s post where c: "capture w g = Some (st, s)" and p: "list_all aside post"
      and t: "trace (final r) =
                trace (ending_state (search_loop w n pm ig (handles_mem s) 0
                                       (loop_entry w n (s\<lparr>status := st\<rparr>)))) @ post"
      by blast
    have "memo_inv (loop_entry w n (s\<lparr>status := st\<rparr>))"
      using assms loop_entry_at_entry [OF c] by (rule memo_inv_entry)
    then have "memo_inv (ending_state (search_loop w n pm ig (handles_mem s) 0
                                       (loop_entry w n (s\<lparr>status := st\<rparr>))))"
      by (rule memo_inv_loop)
    then show ?thesis
      using p unfolding t by (auto simp: memo_inv_def dest!: aside_not_open memo_no_open)
  qed
next
  assume "pid s 0 \<noteq> pid s 1 \<and>
         fst (PhOpenProcess w i (UniqueProcessId (Handles snap ! i)) (processHandle s))
           = STATUS_ACCESS_DENIED"
  then show "last_access_denied_pid (state_of (st_open w snap i s)) =
           UniqueProcessId (Handles snap ! i)"
    by (simp add: st_open_memo)
next
  assume a: "i < length (Handles snap) \<and> \<not> CHECK_FOR_USER_CANCEL w i \<and>
         UniqueProcessId (Handles snap ! i) = last_access_denied_pid s"
  then have b: "loop_body w n pm ig snap i s = Continue (tracked snap i (closed s))"
    by (simp add: loop_body_shape)
  show "is_Continue (loop_body w n pm ig snap i s)"
    by (simp add: b)
  show "filter is_open (drop (length (trace s))
               (trace (state_of (loop_body w n pm ig snap i s)))) = []"
    using a by (simp add: b tracked_trace closed_trace)
  show "last_access_denied_pid (state_of (loop_body w n pm ig snap i s)) =
             last_access_denied_pid s"
    using a by (simp add: b)
  show "bFound (state_of (loop_body w n pm ig snap i s)) = bFound s"
    using a by (simp add: b)
qed

text \<open>
  The theorem at a snapshot with three handles of a process that denies access: one
  open attempt is made for it, the two other handles are skipped, and the search goes
  on to the next process.
\<close>

theorem C9_access_denied_memo_witness:
  "trace boot = []
   \<and> observe (SearchProcess os_denied volume_file True True boot) = Some (Some True, denied_calls)
   \<and> memo_respected 0 denied_calls
   \<and> last_access_denied_pid (state_of (st_open os_denied four_handles 0 at_loop_entry)) = 1000
   \<and> is_Continue (loop_body os_denied volume_file True True four_handles 1
                     (at_loop_entry\<lparr>last_access_denied_pid := 1000\<rparr>))"
proof -
  have h: "trace boot = []" by (simp add: boot_def)
  have ob: "observe (SearchProcess os_denied volume_file True True boot)
              = Some (Some True, denied_calls)"
    by code_simp
  then obtain r where r: "SearchProcess os_denied volume_file True True boot = Some r"
      and tr: "trace (final r) = denied_calls"
    using observe_final by blast
  note A = C9_access_denied_memo [OF h, where w = os_denied and n = volume_file
             and pm = True and ig = True and snap = four_handles and i = 0
             and s = at_loop_entry]
  note B = C9_access_denied_memo [OF h, where w = os_denied and n = volume_file
             and pm = True and ig = True and snap = four_handles and i = 1
             and s = "at_loop_entry\<lparr>last_access_denied_pid := 1000\<rparr>"]
  from A r have "memo_respected 0 (trace (final r))" by blast
  then have c1: "memo_respected 0 denied_calls" by (simp only: tr)
  have p2: "pid at_loop_entry 0 \<noteq> pid at_loop_entry 1 \<and>
     fst (PhOpenProcess os_denied 0 (UniqueProcessId (Handles four_handles ! 0))
            (processHandle at_loop_entry)) = STATUS_ACCESS_DENIED"
    by code_simp
  have c2: "last_access_denied_pid (state_of (st_open os_denied four_handles 0 at_loop_entry))
              = UniqueProcessId (Handles four_handles ! 0)"
    using A p2 by blast
  have v: "UniqueProcessId (Handles four_handles ! 0) = 1000"
    by (simp add: four_handles_def entry_def)
  have p3: "1 < length (Handles four_handles) \<and> \<not> CHECK_FOR_USER_CANCEL os_denied 1 \<and>
       UniqueProcessId (Handles four_handles ! 1) =
         last_access_denied_pid (at_loop_entry\<lparr>last_access_denied_pid := 1000\<rparr>)"
    by (simp add: four_handles_def entry_def CHECK_FOR_USER_CANCEL_def os_denied_def os0_def)
  have c3: "is_Continue (loop_body os_denied volume_file True True four_handles 1
                     (at_loop_entry\<lparr>last_access_denied_pid := 1000\<rparr>))"
    using B p3 by blast
  show ?thesis
    using h ob c1 c2 c3 by (simp only: v simp_thms)
qed

text \<open>
  C10. For a call that starts with an empty record of calls, the paths printed in path
  lines are the paths resolved for the matches, in order, with every adjacent
  repetition removed: a path is suppressed exactly when it equals the path resolved
  just before it. So two consecutive matches with the same path give one line, and
  the paths A, B, A give three lines.
\<close>

theorem C10_report_deduplication:
  assumes "trace g = []"
  shows "\<forall>r. SearchProcess w n pm ig g = Some r \<longrightarrow>
           printed (trace (final r)) = remdups_adj (resolved (trace (final r)))
         \<and> (\<forall>a. resolved (trace (final r)) = [a, a] \<longrightarrow> printed (trace (final r)) = [a])
         \<and> (\<forall>a b. a \<noteq> b \<and> resolved (trace (final r)) = [a, b, a] \<longrightarrow>
                  printed (trace (final r)) = [a, b, a])"
proof (intro allI impI)
  fix r
  assume run: "SearchProcess w n pm ig g = Some r"
  have main: "printed (trace (final r)) = remdups_adj (resolved (trace (final r)))"
    using SearchProcess_trace [OF run]
  proof
    assume "\<exists>evs. trace (final r) = trace g @ evs \<and> list_all aside evs"
    then show ?thesis
      using assms by (auto dest!: aside_no_path)
  next
    assume "\<exists>st s post. capture w g = Some (st, s) \<and> list_all aside post
            \<and> trace (final r) =
                trace (ending_state (search_loop w n pm ig (handles_mem s) 0
                                       (loop_entry w n (s\<lparr>status := st\<rparr>)))) @ post"
    then obtain st s post where c: "capture w g = Some (st, s)" and p: "list_all aside post"
      and t: "trace (final r) =
                trace (ending_state (search_loop w n pm ig (handles_mem s) 0
                                       (loop_entry w n (s\<lparr>status := st\<rparr>)))) @ post"
      by blast
    have "ring_inv (loop_entry w n (s\<lparr>status := st\<rparr>))"
      using assms loop_entry_at_entry [OF c] by (rule ring_inv_entry)
    then have "ring_inv (ending_state (search_loop w n pm ig (handles_mem s) 0
                                       (loop_entry w n (s\<lparr>status := st\<rparr>))))"
      by (rule ring_inv_loop)
    then show ?thesis
      using p unfolding t by (auto simp: ring_inv_def dest!: aside_no_path)
  qed
  show "printed (trace (final r)) = remdups_adj (resolved (trace (final r)))
         \<and> (\<forall>a. resolved (trace (final r)) = [a, a] \<longrightarrow> printed (trace (final r)) = [a])
         \<and> (\<forall>a b. a \<noteq> b \<and> resolved (trace (final r)) = [a, b, a] \<longrightarrow>
                  printed (trace (final r)) = [a, b, a])"
    by (simp add: main)
qed

text \<open>
  The theorem at a run whose four matches resolve to A, A, B, A: three lines are
  printed, A, B, A.
\<close>

theorem C10_report_deduplication_witness:
  "trace boot = []
   \<and> observe (SearchProcess os_three volume_file True True boot) = Some (Some True, three_calls)
   \<and> resolved three_calls = [''a.exe'', ''a.exe'', ''b.exe'', ''a.exe'']
   \<and> printed three_calls = remdups_adj (resolved three_calls)
   \<and> printed three_calls = [''a.exe'', ''b.exe'', ''a.exe'']"
proof -
  have h: "trace boot = []" by (simp add: boot_def)
  obtain r where r: "SearchProcess os_three volume_file True True boot = Some r"
      and tr: "trace (final r) = three_calls"
    using observe_final [OF three_calls_run] by blast
  from C10_report_deduplication [OF h, of os_three volume_file True True] r
  have "printed (trace (final r)) = remdups_adj (resolved (trace (final r)))"
    by blast
  then have c: "printed three_calls = remdups_adj (resolved three_calls)"
    by (simp only: tr)
  have v: "resolved three_calls = [''a.exe'', ''a.exe'', ''b.exe'', ''a.exe'']"
    by (simp add: three_calls_def setup_calls_def cleanup_calls_def)
  have p: "printed three_calls = [''a.exe'', ''b.exe'', ''a.exe'']"
    unfolding c v by simp
  show ?thesis
    using h three_calls_run v c p by blast
qed

text \<open>
  C8. For a call that starts with an empty record of calls and captures a snapshot:
  among the records of any contiguous stretch \<open>a..b\<close> of the snapshot's memory that all
  have one process id, \<^verbatim>\<open>PhOpenProcess\<close> is called for at most one; every
  \<^verbatim>\<open>PhOpenProcess\<close> call is for a declared record, for the process id of that record,
  and that id differs from the id of the record before (from the initial 0 of
  \<^verbatim>\<open>pid[0]\<close> for the first record); and no \<^verbatim>\<open>PhOpenProcess\<close> call is made while a
  process handle opened before, other than the pseudo-handle of the caller, has not
  been passed to \<^verbatim>\<open>NtClose\<close>.
\<close>

theorem C8_one_open_per_run:
  assumes "trace g = []"
  shows "\<forall>r st s. SearchProcess w n pm ig g = Some r \<and> capture w g = Some (st, s) \<longrightarrow>
           (\<forall>a b. a \<le> b \<and> b < length (Handles (handles_mem s)) \<and>
                  (\<forall>j. a \<le> j \<and> j \<le> b \<longrightarrow>
                       UniqueProcessId (Handles (handles_mem s) ! j) =
                       UniqueProcessId (Handles (handles_mem s) ! a)) \<longrightarrow>
                  length (filter (\<lambda>j. a \<le> j \<and> j \<le> b) (open_indices (trace (final r)))) \<le> 1)
         \<and> list_all (run_start (handles_mem s)) (trace (final r))
         \<and> slot_run 0 (trace (final r)) \<noteq> None"
proof (intro allI impI)
  fix r st s
  assume "SearchProcess w n pm ig g = Some r \<and> capture w g = Some (st, s)"
  then have run: "SearchProcess w n pm ig g = Some r" and c: "capture w g = Some (st, s)"
    by simp_all
  let ?snap = "handles_mem s"
  let ?tr = "trace (final r)"
  have main: "sorted_wrt (<) (open_indices ?tr) \<and> list_all (run_start ?snap) ?tr
              \<and> slot_run 0 ?tr \<noteq> None"
    using SearchProcess_trace [OF run]
  proof
    assume "\<exists>evs. trace (final r) = trace g @ evs \<and> list_all aside evs"
    then obtain evs where t: "?tr = evs" and a: "list_all aside evs"
      using assms by auto
    show ?thesis
      unfolding t using aside_no_handle [OF a, of ?snap 0] by simp
  next
    assume "\<exists>st s post. capture w g = Some (st, s) \<and> list_all aside post
            \<and> trace (final r) =
                trace (ending_state (search_loop w n pm ig (handles_mem s) 0
                                       (loop_entry w n (s\<lparr>status := st\<rparr>)))) @ post"
    with c obtain post where p: "list_all aside post"
      and t: "?tr = trace (ending_state (search_loop w n pm ig ?snap 0
                                       (loop_entry w n (s\<lparr>status := st\<rparr>)))) @ post"
      by auto
    let ?e = "loop_entry w n (s\<lparr>status := st\<rparr>)"
    have "pid_inv ?snap 0 ?e" "run_inv ?snap ?e"
      using assms loop_entry_at_entry [OF c] by (rule run_entry)+
    then have "run_inv ?snap (ending_state (search_loop w n pm ig ?snap 0 ?e))"
      by (rule run_loop)
    then obtain held where
      e: "sorted_wrt (<) (open_indices (trace (ending_state
             (search_loop w n pm ig ?snap 0 ?e))))"
         "list_all (run_start ?snap) (trace (ending_state
             (search_loop w n pm ig ?snap 0 ?e)))"
         "slot_run 0 (trace (ending_state (search_loop w n pm ig ?snap 0 ?e))) = Some held"
      by (auto simp: run_inv_def slot_inv_def)
    note a = aside_no_handle [OF p]
    show ?thesis
      unfolding t using e a [of ?snap 0] a [of ?snap held]
      by (simp add: slot_run_append)
  qed
  have one: "length (filter (\<lambda>j. a \<le> j \<and> j \<le> b) (open_indices ?tr)) \<le> 1"
    if "\<forall>j. a \<le> j \<and> j \<le> b \<longrightarrow>
          UniqueProcessId (Handles ?snap ! j) = UniqueProcessId (Handles ?snap ! a)" for a b
    using main [THEN conjunct1] main [THEN conjunct2, THEN conjunct1] that
    by (rule one_open_per_run)
  show "(\<forall>a b. a \<le> b \<and> b < length (Handles ?snap) \<and>
                  (\<forall>j. a \<le> j \<and> j \<le> b \<longrightarrow>
                       UniqueProcessId (Handles ?snap ! j) =
                       UniqueProcessId (Handles ?snap ! a)) \<longrightarrow>
                  length (filter (\<lambda>j. a \<le> j \<and> j \<le> b) (open_indices ?tr)) \<le> 1)
         \<and> list_all (run_start ?snap) ?tr
         \<and> slot_run 0 ?tr \<noteq> None"
  proof (intro conjI allI impI)
    fix a b
    assume "a \<le> b \<and> b < length (Handles ?snap) \<and>
            (\<forall>j. a \<le> j \<and> j \<le> b \<longrightarrow>
                 UniqueProcessId (Handles ?snap ! j) = UniqueProcessId (Handles ?snap ! a))"
    then have "\<forall>j. a \<le> j \<and> j \<le> b \<longrightarrow>
                 UniqueProcessId (Handles ?snap ! j) = UniqueProcessId (Handles ?snap ! a)"
      by (elim conjE)
    then show "length (filter (\<lambda>j. a \<le> j \<and> j \<le> b) (open_indices ?tr)) \<le> 1"
      by (rule one)
  next
    show "list_all (run_start ?snap) ?tr" by (rule main [THEN conjunct2, THEN conjunct1])
  next
    show "slot_run 0 ?tr \<noteq> None" by (rule main [THEN conjunct2, THEN conjunct2])
  qed
qed

text \<open>
  The theorem at the run over the records of the processes 1000, 1000, 2000 and 1000:
  the process is opened for the records 0, 2 and 3, once for the run of the records
  0 and 1, and the handle 0x100 is closed before each later open.
\<close>

theorem C8_one_open_per_run_witness:
  "trace boot = []
   \<and> observe (SearchProcess os_three volume_file True True boot) = Some (Some True, three_calls)
   \<and> map_option (\<lambda>(st, s). handles_mem s) (capture os_three boot) = Some snapshot_three
   \<and> map UniqueProcessId (Handles snapshot_three) = [1000, 1000, 2000, 1000, 0xDEAD]
   \<and> open_indices three_calls = [0, 2, 3]
   \<and> length (filter (\<lambda>j. 0 \<le> j \<and> j \<le> 1) (open_indices three_calls)) \<le> 1
   \<and> list_all (run_start snapshot_three) three_calls
   \<and> slot_run 0 three_calls \<noteq> None"
proof -
  have h: "trace boot = []" by (simp add: boot_def)
  obtain r where r: "SearchProcess os_three volume_file True True boot = Some r"
      and tr: "trace (final r) = three_calls"
    using observe_final [OF three_calls_run] by blast
  obtain st s where c: "capture os_three boot = Some (st, s)"
      and m: "handles_mem s = snapshot_three"
    using three_capture by (cases "capture os_three boot") auto
  have p: "map UniqueProcessId (Handles snapshot_three) = [1000, 1000, 2000, 1000, 0xDEAD]"
    by (simp add: snapshot_three_def entry_def)
  have q: "(0::nat) \<le> 1 \<and> 1 < length (Handles (handles_mem s)) \<and>
           (\<forall>j. 0 \<le> j \<and> j \<le> 1 \<longrightarrow>
                UniqueProcessId (Handles (handles_mem s) ! j) =
                UniqueProcessId (Handles (handles_mem s) ! 0))"
  proof (intro conjI allI impI)
    fix j :: nat assume "0 \<le> j \<and> j \<le> 1"
    then have "j = 0 \<or> j = 1" by arith
    then show "UniqueProcessId (Handles (handles_mem s) ! j) =
               UniqueProcessId (Handles (handles_mem s) ! 0)"
      by (auto simp: m snapshot_three_def entry_def)
  qed (simp_all add: m snapshot_three_def)
  note T = C8_one_open_per_run [OF h, of os_three volume_file True True,
             rule_format, OF conjI [OF r c]]
  have a: "length (filter (\<lambda>j. 0 \<le> j \<and> j \<le> 1) (open_indices three_calls)) \<le> 1"
    using T [THEN conjunct1, rule_format, OF q, unfolded tr] .
  have b: "list_all (run_start snapshot_three) three_calls"
    using T [THEN conjunct2, THEN conjunct1, unfolded tr m] .
  have d: "slot_run 0 three_calls \<noteq> None"
    using T [THEN conjunct2, THEN conjunct2, unfolded tr] .
  have o: "open_indices three_calls = [0, 2, 3]"
    by (simp add: three_calls_def setup_calls_def cleanup_calls_def)
  show ?thesis
    by (intro conjI h three_calls_run three_capture p o a b d)
qed

end
